theory Spec2Isabelle
  imports Complex_Main "HOL-Library.Word"
begin

unbundle bit_operations_syntax

section \<open>The RangeRite two-point calibration sketch\<close>

text \<open>
  A shallow embedding of \<^verbatim>\<open>RangeRite_ADC_TwoPointCal_Example.ino\<close>.

  \<^item> \<^verbatim>\<open>uint8_t\<close>, \<^verbatim>\<open>uint16_t\<close> and \<^verbatim>\<open>uint32_t\<close> are words of that width, so every
    addition, shift and mask wraps and truncates as in C.
  \<^item> \<^verbatim>\<open>float\<close> values are real numbers. The function \<open>to_binary32\<close> rounds a real to
    the nearest single-precision value, ties to even, with an unbounded exponent:
    overflow, underflow, infinities and NaN are outside the model. The average of
    \<^verbatim>\<open>adsxReadAveragedVolts\<close> is computed with that rounding, since the integer it is
    truncated to depends on it: \<^verbatim>\<open>(float)u\<close> is \<open>uint_to_float u\<close>, the quotient is
    rounded, and \<^verbatim>\<open>(uint32_t)x\<close> discards the fraction. The transfer function and the
    calibration fit are written in exact arithmetic, operation by operation as the
    sketch has them; the fit and the correction are given a second time with every
    operation rounded, for the round trip of the fit, which depends on the rounding.
  \<^item> The globals of the sketch are the fields of the record \<open>sketch\<close>. Two more fields
    record what the sketch sends out: the lines printed on \<^verbatim>\<open>Serial\<close> and the frames
    clocked out on the SPI bus.
  \<^item> The ADC is a function from the position of a frame on the bus to the four bytes
    the device shifts out during that frame. Pin levels and delays are left out.
  \<^item> The preprocessor settings and the \<^verbatim>\<open>static const\<close> calibration constants are the
    fields of the record \<open>config\<close>; \<open>as_shipped\<close> holds the values written in the file.
\<close>

type_synonym u8 = "8 word"
type_synonym u16 = "16 word"
type_synonym u32 = "32 word"

subsection \<open>Compile-time settings\<close>

record config =
  ADSX_BITS :: nat
  ADSX_ENABLE_TWO_POINT_CAL :: bool
  ADSX_CAL_RANGE_CODE :: u16
  ADSX_CAL_P1_ACTUAL :: real
  ADSX_CAL_P1_MEASURED :: real
  ADSX_CAL_P2_ACTUAL :: real
  ADSX_CAL_P2_MEASURED :: real

text \<open>The \<^verbatim>\<open>#error\<close> guard of lines 30 to 32: only 16 and 18 compile.\<close>

definition compiles :: "config \<Rightarrow> bool" where
  "compiles cfg \<longleftrightarrow> ADSX_BITS cfg = 16 \<or> ADSX_BITS cfg = 18"

text \<open>Lines 39 to 45: alignment of the code in the 32-bit output word.\<close>

definition ADSX_CODE_SHIFT :: "config \<Rightarrow> nat" where
  "ADSX_CODE_SHIFT cfg = (if ADSX_BITS cfg = 18 then 14 else 16)"

definition ADSX_CODE_MASK :: "config \<Rightarrow> u32" where
  "ADSX_CODE_MASK cfg = (if ADSX_BITS cfg = 18 then 0x3FFFF else 0xFFFF)"

definition ADSX_REG_RANGE_SEL :: u8 where "ADSX_REG_RANGE_SEL = 0x14"
definition ADSX_INTREF_ENABLE :: u16 where "ADSX_INTREF_ENABLE = 0x0000"
definition ADSX_INTREF_DISABLE :: u16 where "ADSX_INTREF_DISABLE = 0x0040"

definition ADSX_RANGE_BIPOLAR_3X :: u16 where "ADSX_RANGE_BIPOLAR_3X = 0x0"
definition ADSX_RANGE_BIPOLAR_2P5X :: u16 where "ADSX_RANGE_BIPOLAR_2P5X = 0x1"
definition ADSX_RANGE_BIPOLAR_1P5X :: u16 where "ADSX_RANGE_BIPOLAR_1P5X = 0x2"
definition ADSX_RANGE_BIPOLAR_1P25X :: u16 where "ADSX_RANGE_BIPOLAR_1P25X = 0x3"
definition ADSX_RANGE_BIPOLAR_0P625X :: u16 where "ADSX_RANGE_BIPOLAR_0P625X = 0x4"
definition ADSX_RANGE_UNIPOLAR_3X :: u16 where "ADSX_RANGE_UNIPOLAR_3X = 0x8"
definition ADSX_RANGE_UNIPOLAR_2P5X :: u16 where "ADSX_RANGE_UNIPOLAR_2P5X = 0x9"
definition ADSX_RANGE_UNIPOLAR_1P5X :: u16 where "ADSX_RANGE_UNIPOLAR_1P5X = 0xA"
definition ADSX_RANGE_UNIPOLAR_1P25X :: u16 where "ADSX_RANGE_UNIPOLAR_1P25X = 0xB"

text \<open>The settings as the file has them: 16 bits, calibration compiled out.\<close>

definition as_shipped :: config where
  "as_shipped = \<lparr> ADSX_BITS = 16,
      ADSX_ENABLE_TWO_POINT_CAL = False,
      ADSX_CAL_RANGE_CODE = ADSX_RANGE_BIPOLAR_3X,
      ADSX_CAL_P1_ACTUAL = - 10.0002,
      ADSX_CAL_P1_MEASURED = - 10.0017,
      ADSX_CAL_P2_ACTUAL = 10.0027,
      ADSX_CAL_P2_MEASURED = 10.0045 \<rparr>"

subsection \<open>State\<close>

datatype serial_line =
    Cal_enabled
  | Cal_range_code u16
  | Cal_slope real
  | Cal_offset real
  | Warning_range_mismatch
  | Cal_disabled_identical
  | Configured nat
  | Volts real

type_synonym frame = "u8 \<times> u8 \<times> u8 \<times> u8"

text \<open>The device: the bytes it answers during the k-th frame on the bus.\<close>

type_synonym adc = "nat \<Rightarrow> frame"

record sketch =
  g_range_code :: u16
  g_useInternalRef :: bool
  g_vref_volts :: real
  g_num_averages :: u16
  g_cal_enabled :: bool
  g_cal_slope :: real
  g_cal_offset :: real
  serial_out :: "serial_line list"
  spi_sent :: "frame list"

text \<open>The initialisers of lines 74 to 76, 87 and 100 to 102.\<close>

definition power_on :: sketch where
  "power_on = \<lparr> g_range_code = ADSX_RANGE_BIPOLAR_3X,
      g_useInternalRef = True,
      g_vref_volts = 4.096,
      g_num_averages = 12,
      g_cal_enabled = False,
      g_cal_slope = 1.0,
      g_cal_offset = 0.0,
      serial_out = [],
      spi_sent = [] \<rparr>"

subsection \<open>SPI helpers\<close>

definition xfer32 :: "adc \<Rightarrow> u8 \<Rightarrow> u8 \<Rightarrow> u8 \<Rightarrow> u8 \<Rightarrow> sketch \<Rightarrow> u32 \<times> sketch" where
  "xfer32 dev b0 b1 b2 b3 st =
     (case dev (length (spi_sent st)) of (r0, r1, r2, r3) \<Rightarrow>
        (push_bit 24 (ucast r0) OR push_bit 16 (ucast r1) OR push_bit 8 (ucast r2) OR ucast r3,
         st\<lparr>spi_sent := spi_sent st @ [(b0, b1, b2, b3)]\<rparr>))"

definition frameNOP :: "adc \<Rightarrow> sketch \<Rightarrow> u32 \<times> sketch" where
  "frameNOP dev st = xfer32 dev 0x00 0x00 0x00 0x00 st"

definition writeRegHWord :: "adc \<Rightarrow> u8 \<Rightarrow> u16 \<Rightarrow> sketch \<Rightarrow> sketch" where
  "writeRegHWord dev addr data st =
     snd (xfer32 dev 0xD0 addr (ucast (drop_bit 8 data)) (ucast (data AND 0xFF)) st)"

subsection \<open>Conversion context\<close>

definition adsxSetVrefVolts :: "real \<Rightarrow> sketch \<Rightarrow> sketch" where
  "adsxSetVrefVolts vref_volts st =
     (if vref_volts > 0.0 then st\<lparr>g_vref_volts := vref_volts\<rparr> else st)"

definition adsxSetRange :: "adc \<Rightarrow> u16 \<Rightarrow> bool \<Rightarrow> sketch \<Rightarrow> sketch" where
  "adsxSetRange dev range_code useInternalRef st =
     (let data = (range_code AND 0x000F) OR
                 (if useInternalRef then ADSX_INTREF_ENABLE else ADSX_INTREF_DISABLE);
          st1 = writeRegHWord dev ADSX_REG_RANGE_SEL data st;
          st2 = st1\<lparr>g_range_code := range_code AND 0x000F,
                    g_useInternalRef := useInternalRef\<rparr>;
          st3 = snd (frameNOP dev st2)
      in snd (frameNOP dev st3))"

text \<open>
  The multiplier and, in the second component, the value the function stores through
  its \<^verbatim>\<open>bool &isBipolar\<close> parameter. The cases are tried in the order of the switch.
\<close>

definition adsxRangeMultiplier :: "u16 \<Rightarrow> real \<times> bool" where
  "adsxRangeMultiplier code =
     (let sel = code AND 0xF in
      if sel = ADSX_RANGE_BIPOLAR_3X then (3.0, True)
      else if sel = ADSX_RANGE_BIPOLAR_2P5X then (2.5, True)
      else if sel = ADSX_RANGE_BIPOLAR_1P5X then (1.5, True)
      else if sel = ADSX_RANGE_BIPOLAR_1P25X then (1.25, True)
      else if sel = ADSX_RANGE_BIPOLAR_0P625X then (0.625, True)
      else if sel = ADSX_RANGE_UNIPOLAR_3X then (3.0, False)
      else if sel = ADSX_RANGE_UNIPOLAR_2P5X then (2.5, False)
      else if sel = ADSX_RANGE_UNIPOLAR_1P5X then (1.5, False)
      else if sel = ADSX_RANGE_UNIPOLAR_1P25X then (1.25, False)
      else (1.25, False))"

subsection \<open>Transfer function\<close>

definition adsxCodeToVolts :: "config \<Rightarrow> sketch \<Rightarrow> u32 \<Rightarrow> real" where
  "adsxCodeToVolts cfg st codeN0 =
     (let codeN = (if codeN0 > ADSX_CODE_MASK cfg then ADSX_CODE_MASK cfg else codeN0);
          (mult, bipolar) = adsxRangeMultiplier (g_range_code st);
          vref = g_vref_volts st;
          PFS = mult * vref;
          NFS = (if bipolar then - PFS else 0.0);
          FSR = PFS - NFS;
          LSB = FSR / real (unat (push_bit (ADSX_BITS cfg) (1 :: u32)))
      in NFS + real (unat codeN) * LSB)"

subsection \<open>Acquisition\<close>

definition adsxReadCodeRaw32 :: "adc \<Rightarrow> sketch \<Rightarrow> u32 \<times> sketch" where
  "adsxReadCodeRaw32 dev st =
     (let st1 = snd (frameNOP dev st) in frameNOP dev st1)"

definition adsxReadCodeNbits :: "adc \<Rightarrow> config \<Rightarrow> sketch \<Rightarrow> u32 \<times> sketch" where
  "adsxReadCodeNbits dev cfg st =
     (case adsxReadCodeRaw32 dev st of (w, st1) \<Rightarrow>
        (drop_bit (ADSX_CODE_SHIFT cfg) w AND ADSX_CODE_MASK cfg, st1))"

subsection \<open>Single precision\<close>

text \<open>
  Rounding to the nearest integer, ties to the even one; then rounding of a positive
  real to 24 significant bits: the value is scaled by powers of two into the range from
  \<open>2^23\<close> to \<open>2^24\<close>, rounded to an integer there, and scaled back.
\<close>

definition round_half_even :: "real \<Rightarrow> int" where
  "round_half_even t =
     (let f = \<lfloor>t\<rfloor>; d = t - of_int f
      in if d < 1 / 2 then f else if 1 / 2 < d then f + 1 else if even f then f else f + 1)"

function to_binary32_pos :: "real \<Rightarrow> real" where
  "to_binary32_pos x =
     (if x \<le> 0 then 0
      else if x < 2 ^ 23 then to_binary32_pos (2 * x) / 2
      else if 2 ^ 24 \<le> x then 2 * to_binary32_pos (x / 2)
      else of_int (round_half_even x))"
  by pat_completeness auto
termination
proof (relation "measure (\<lambda>x. nat \<bar>\<lfloor>log 2 x\<rfloor> - 23\<bar>)")
  show "wf (measure (\<lambda>x. nat \<bar>\<lfloor>log 2 x\<rfloor> - 23\<bar>))"
    by simp
next
  fix x :: real
  assume "\<not> x \<le> 0" and small: "x < 2 ^ 23"
  then have pos: "0 < x" by simp
  have "log 2 (2 * x) = 1 + log 2 x"
    using pos by (simp add: log_mult)
  then have up: "\<lfloor>log 2 (2 * x)\<rfloor> = \<lfloor>log 2 x\<rfloor> + 1"
    by simp
  have "log 2 x < 23"
    using log_less_iff [of 2 x 23] pos small by simp
  then have "\<lfloor>log 2 x\<rfloor> < 23"
    by (simp add: floor_less_iff)
  then show "(2 * x, x) \<in> measure (\<lambda>x. nat \<bar>\<lfloor>log 2 x\<rfloor> - 23\<bar>)"
    using up by simp
next
  fix x :: real
  assume "\<not> x \<le> 0" and big: "2 ^ 24 \<le> x"
  then have pos: "0 < x" by simp
  have "log 2 (x / 2) = log 2 x - 1"
    using pos by (simp add: log_divide)
  then have down: "\<lfloor>log 2 (x / 2)\<rfloor> = \<lfloor>log 2 x\<rfloor> - 1"
    by simp
  have "24 \<le> log 2 x"
    using le_log_iff [of 2 x 24] pos big by simp
  then have "24 \<le> \<lfloor>log 2 x\<rfloor>"
    by (simp add: le_floor_iff)
  then show "(x / 2, x) \<in> measure (\<lambda>x. nat \<bar>\<lfloor>log 2 x\<rfloor> - 23\<bar>)"
    using down by simp
qed

declare to_binary32_pos.simps [simp del]

text \<open>Rounding to single precision: the sign apart, \<open>to_binary32_pos\<close>.\<close>

definition to_binary32 :: "real \<Rightarrow> real" where
  "to_binary32 x = sgn x * to_binary32_pos \<bar>x\<bar>"

text \<open>The conversion \<^verbatim>\<open>(float)u\<close> of an unsigned integer.\<close>

definition uint_to_float :: "'a::len word \<Rightarrow> real" where
  "uint_to_float u = to_binary32 (real (unat u))"

subsection \<open>Averaging\<close>

text \<open>
  The \<^verbatim>\<open>for\<close> loop of lines 114 to 118, entered with the counter \<open>i\<close>: one
  acquisition per turn, added to the 32-bit accumulator.
\<close>

function read_loop :: "adc \<Rightarrow> config \<Rightarrow> u16 \<Rightarrow> u16 \<Rightarrow> u32 \<Rightarrow> sketch \<Rightarrow> u32 \<times> sketch" where
  "read_loop dev cfg n i code_accumulator st =
     (if i < n then
        (case adsxReadCodeNbits dev cfg st of (code, st1) \<Rightarrow>
           read_loop dev cfg n (i + 1) (code_accumulator + code) st1)
      else (code_accumulator, st))"
  by pat_completeness auto
termination
proof (relation "measure (\<lambda>(dev, cfg, n, i, acc, st). unat n - unat i)")
  show "wf (measure (\<lambda>(dev, cfg, n, i, acc, st). unat n - unat i))"
    by simp
next
  fix dev :: adc and cfg :: config and n i :: u16 and code_accumulator :: u32
    and st :: sketch and x :: "u32 \<times> sketch" and code :: u32 and st1 :: sketch
  assume less: "i < n"
  then have "unat i < unat n"
    by (simp add: word_less_nat_alt)
  moreover have "unat n < 2 ^ 16"
    using unsigned_less [of n] by simp
  moreover have "unat (i + 1) = (unat i + 1) mod 2 ^ 16"
    by (simp add: unat_word_ariths)
  ultimately show "((dev, cfg, n, i + 1, code_accumulator + code, st1),
      (dev, cfg, n, i, code_accumulator, st))
    \<in> measure (\<lambda>(dev, cfg, n, i, acc, st). unat n - unat i)"
    by simp
qed

declare read_loop.simps [simp del]

text \<open>The conversion \<^verbatim>\<open>(uint32_t)x\<close> of a float that is not negative: the fraction is dropped.\<close>

definition float_to_u32 :: "real \<Rightarrow> u32" where
  "float_to_u32 x = word_of_nat (nat \<lfloor>x\<rfloor>)"

text \<open>Line 112: the number of conversions to average, at least one.\<close>

definition averaging_count :: "sketch \<Rightarrow> u16" where
  "averaging_count st = (if g_num_averages st < 1 then 1 else g_num_averages st)"

text \<open>
  Lines 109 to 124 of \<^verbatim>\<open>adsxReadAveragedVolts\<close>: the averaging count, the loop, the
  average of the accumulator and its conversion to volts (\<^verbatim>\<open>volts_raw\<close>).
\<close>

definition volts_raw :: "adc \<Rightarrow> config \<Rightarrow> sketch \<Rightarrow> real \<times> sketch" where
  "volts_raw dev cfg st =
     (let n = averaging_count st in
      case read_loop dev cfg n 0 0 st of (code_accumulator, st1) \<Rightarrow>
        (let avg_code = to_binary32 (uint_to_float code_accumulator / uint_to_float n)
         in (adsxCodeToVolts cfg st1 (float_to_u32 avg_code), st1)))"

text \<open>Lines 126 to 133: the correction, present only when it is compiled in.\<close>

definition adsxReadAveragedVolts :: "adc \<Rightarrow> config \<Rightarrow> sketch \<Rightarrow> real \<times> sketch" where
  "adsxReadAveragedVolts dev cfg st =
     (case volts_raw dev cfg st of (v, st1) \<Rightarrow>
        if ADSX_ENABLE_TWO_POINT_CAL cfg \<and> g_cal_enabled st1
           \<and> g_range_code st1 = ADSX_CAL_RANGE_CODE cfg
        then (g_cal_offset st1 + g_cal_slope st1 * v, st1)
        else (v, st1))"

subsection \<open>Start-up and main loop\<close>

definition print :: "serial_line \<Rightarrow> sketch \<Rightarrow> sketch" where
  "print l st = st\<lparr>serial_out := serial_out st @ [l]\<rparr>"

text \<open>Lines 264 to 291 of \<^verbatim>\<open>setup\<close>.\<close>

definition two_point_fit :: "config \<Rightarrow> sketch \<Rightarrow> sketch" where
  "two_point_fit cfg st =
     (if ADSX_ENABLE_TWO_POINT_CAL cfg then
        if ADSX_CAL_P2_MEASURED cfg \<noteq> ADSX_CAL_P1_MEASURED cfg then
          (let slope = (ADSX_CAL_P2_ACTUAL cfg - ADSX_CAL_P1_ACTUAL cfg) /
                       (ADSX_CAL_P2_MEASURED cfg - ADSX_CAL_P1_MEASURED cfg);
               st1 = st\<lparr>g_cal_slope := slope\<rparr>;
               st2 = st1\<lparr>g_cal_offset :=
                      ADSX_CAL_P1_ACTUAL cfg - (g_cal_slope st1 * ADSX_CAL_P1_MEASURED cfg)\<rparr>;
               st3 = st2\<lparr>g_cal_enabled := True\<rparr>;
               st4 = print (Cal_offset (g_cal_offset st3))
                      (print (Cal_slope (g_cal_slope st3))
                        (print (Cal_range_code (ADSX_CAL_RANGE_CODE cfg))
                          (print Cal_enabled st3)))
           in if g_range_code st4 \<noteq> ADSX_CAL_RANGE_CODE cfg
              then print Warning_range_mismatch st4 else st4)
        else print Cal_disabled_identical (st\<lparr>g_cal_enabled := False\<rparr>)
      else st\<lparr>g_cal_enabled := False\<rparr>)"

definition setup_sketch :: "adc \<Rightarrow> config \<Rightarrow> sketch \<Rightarrow> sketch" where
  "setup_sketch dev cfg st =
     (let st1 = adsxSetVrefVolts 4.096 st;
          st2 = adsxSetRange dev (g_range_code st1) True st1;
          st3 = two_point_fit cfg st2
      in print (Configured (ADSX_BITS cfg)) st3)"

definition loop :: "adc \<Rightarrow> config \<Rightarrow> sketch \<Rightarrow> sketch" where
  "loop dev cfg st =
     (case adsxReadAveragedVolts dev cfg st of (volts, st1) \<Rightarrow> print (Volts volts) st1)"

subsection \<open>The fit and the correction in single precision\<close>

text \<open>
  Lines 268 to 270 and line 129 as the target evaluates them, every operation rounded to
  single precision: the slope, the offset, and the correction of a raw voltage.
  \<open>two_point_fit\<close> and \<open>adsxReadAveragedVolts\<close> above have the same operations in exact
  arithmetic.
\<close>

definition cal_slope_binary32 :: "config \<Rightarrow> real" where
  "cal_slope_binary32 cfg =
     to_binary32 (to_binary32 (ADSX_CAL_P2_ACTUAL cfg - ADSX_CAL_P1_ACTUAL cfg) /
                  to_binary32 (ADSX_CAL_P2_MEASURED cfg - ADSX_CAL_P1_MEASURED cfg))"

definition cal_offset_binary32 :: "config \<Rightarrow> real" where
  "cal_offset_binary32 cfg =
     to_binary32 (ADSX_CAL_P1_ACTUAL cfg -
                  to_binary32 (cal_slope_binary32 cfg * ADSX_CAL_P1_MEASURED cfg))"

definition corrected_binary32 :: "config \<Rightarrow> real \<Rightarrow> real" where
  "corrected_binary32 cfg volts =
     to_binary32 (cal_offset_binary32 cfg + to_binary32 (cal_slope_binary32 cfg * volts))"

text \<open>
  The states the sketch can be in: \<^verbatim>\<open>setup\<close> runs once from the initial values, then
  \<^verbatim>\<open>loop\<close> runs again and again; the two setters are callable at any point.
\<close>

inductive reachable :: "adc \<Rightarrow> config \<Rightarrow> sketch \<Rightarrow> bool" for dev cfg where
  start: "reachable dev cfg (setup_sketch dev cfg power_on)"
| after_loop: "reachable dev cfg st \<Longrightarrow> reachable dev cfg (loop dev cfg st)"
| after_set_vref: "reachable dev cfg st \<Longrightarrow> reachable dev cfg (adsxSetVrefVolts v st)"
| after_set_range: "reachable dev cfg st \<Longrightarrow> reachable dev cfg (adsxSetRange dev rc ir st)"

subsection \<open>Auxiliary notions for the properties\<close>

text \<open>The codes that \<open>k\<close> successive acquisitions return, the first one made in \<open>st\<close>.\<close>

fun samples :: "adc \<Rightarrow> config \<Rightarrow> nat \<Rightarrow> sketch \<Rightarrow> u32 list" where
  "samples dev cfg 0 st = []"
| "samples dev cfg (Suc k) st =
     (case adsxReadCodeNbits dev cfg st of (code, st1) \<Rightarrow> code # samples dev cfg k st1)"

text \<open>
  The transfer function as section 4.1 of the specification words it, read on an
  average that keeps its fraction: clamp to \<open>[0, 2^N - 1]\<close>, then \<open>NFS + code * LSB\<close>.
  It is what section 4.4 of the specification describes, and is compared below with what
  the sketch computes.
\<close>

definition spec_codeToVoltage :: "config \<Rightarrow> sketch \<Rightarrow> real \<Rightarrow> real" where
  "spec_codeToVoltage cfg st code =
     (let clamped = min (max code 0) (2 ^ ADSX_BITS cfg - 1);
          (multiplier, bipolar) = adsxRangeMultiplier (g_range_code st);
          PFS = multiplier * g_vref_volts st;
          NFS = (if bipolar then - PFS else 0);
          FSR = PFS - NFS;
          LSB = FSR / 2 ^ ADSX_BITS cfg
      in NFS + clamped * LSB)"

text \<open>
  A device that answers zero in every frame, one that answers a word with only its top
  bit set in every frame, and one that answers code 1 once.
\<close>

definition quiet_adc :: adc where
  "quiet_adc k = (0, 0, 0, 0)"

definition midscale_adc :: adc where
  "midscale_adc k = (0x80, 0, 0, 0)"

definition one_count_adc :: adc where
  "one_count_adc k = (if k = 4 then (0, 1, 0, 0) else (0, 0, 0, 0))"

text \<open>A device that answers code 65531 once and code 65532 in every other frame.\<close>

definition near_top_adc :: adc where
  "near_top_adc k = (if k = 4 then (0xFF, 0xFB, 0, 0) else (0xFF, 0xFC, 0, 0))"

text \<open>
  The shipped settings with the calibration switched on, and the same with calibration
  points taken on another range than the one the sketch selects.
\<close>

definition cal_on :: config where
  "cal_on = as_shipped\<lparr>ADSX_ENABLE_TWO_POINT_CAL := True\<rparr>"

definition cal_on_other_range :: config where
  "cal_on_other_range = cal_on\<lparr>ADSX_CAL_RANGE_CODE := ADSX_RANGE_UNIPOLAR_1P25X\<rparr>"

text \<open>
  Calibration points that single precision holds exactly: measured values that are
  adjacent single-precision numbers, and measured values \<open>2^-17\<close> V apart with a
  slope of 30. Then calibration switched on with two points that have the same measured
  value.
\<close>

definition cal_adjacent :: config where
  "cal_adjacent =
     cal_on\<lparr>ADSX_CAL_P1_ACTUAL := 0, ADSX_CAL_P1_MEASURED := 1,
            ADSX_CAL_P2_ACTUAL := 3, ADSX_CAL_P2_MEASURED := 1 + 1 / 2 ^ 23\<rparr>"

definition cal_close :: config where
  "cal_close =
     cal_on\<lparr>ADSX_CAL_P1_ACTUAL := 10, ADSX_CAL_P1_MEASURED := 10,
            ADSX_CAL_P2_ACTUAL := 10 + 30 / 2 ^ 17, ADSX_CAL_P2_MEASURED := 10 + 1 / 2 ^ 17\<rparr>"

definition cal_on_identical :: config where
  "cal_on_identical = cal_on\<lparr>ADSX_CAL_P2_MEASURED := - 10.0017\<rparr>"

section \<open>Properties\<close>

lemmas range_codes =
  ADSX_RANGE_BIPOLAR_3X_def ADSX_RANGE_BIPOLAR_2P5X_def ADSX_RANGE_BIPOLAR_1P5X_def
  ADSX_RANGE_BIPOLAR_1P25X_def ADSX_RANGE_BIPOLAR_0P625X_def ADSX_RANGE_UNIPOLAR_3X_def
  ADSX_RANGE_UNIPOLAR_2P5X_def ADSX_RANGE_UNIPOLAR_1P5X_def ADSX_RANGE_UNIPOLAR_1P25X_def

subsection \<open>Rounding to single precision\<close>

lemma round_half_even_upper: "real_of_int (round_half_even t) \<le> t + 1 / 2"
  unfolding round_half_even_def Let_def by (auto simp: not_less) linarith+

lemma round_half_even_lower: "t - 1 / 2 \<le> real_of_int (round_half_even t)"
  unfolding round_half_even_def Let_def by (auto simp: not_less) linarith+

lemma round_half_even_ge_floor: "\<lfloor>t\<rfloor> \<le> round_half_even t"
  unfolding round_half_even_def Let_def by auto

lemma round_half_even_le_ceiling: "round_half_even t \<le> \<lceil>t\<rceil>"
proof (cases "t = of_int \<lfloor>t\<rfloor>")
  case True
  then have "round_half_even t = \<lfloor>t\<rfloor>"
    unfolding round_half_even_def Let_def by simp
  then show ?thesis
    by (simp add: floor_le_ceiling)
next
  case False
  then have "\<lceil>t\<rceil> = \<lfloor>t\<rfloor> + 1"
    by (simp add: ceiling_altdef)
  then show ?thesis
    unfolding round_half_even_def Let_def by auto
qed

lemma to_binary32_pos_nonpos: "x \<le> 0 \<Longrightarrow> to_binary32_pos x = 0"
  by (subst to_binary32_pos.simps) simp

lemma to_binary32_pos_small:
  "0 < x \<Longrightarrow> x < 2 ^ 23 \<Longrightarrow> to_binary32_pos x = to_binary32_pos (2 * x) / 2"
  by (subst to_binary32_pos.simps) simp

lemma to_binary32_pos_big:
  "2 ^ 24 \<le> x \<Longrightarrow> to_binary32_pos x = 2 * to_binary32_pos (x / 2)"
  by (subst to_binary32_pos.simps) simp

lemma to_binary32_pos_base:
  "2 ^ 23 \<le> x \<Longrightarrow> x < 2 ^ 24 \<Longrightarrow> to_binary32_pos x = of_int (round_half_even x)"
  by (subst to_binary32_pos.simps) simp

lemma to_binary32_pos_induct [case_names nonpos small big base]:
  fixes P :: "real \<Rightarrow> bool" and x :: real
  assumes "\<And>x. x \<le> 0 \<Longrightarrow> P x"
    and "\<And>x. 0 < x \<Longrightarrow> x < 2 ^ 23 \<Longrightarrow> P (2 * x) \<Longrightarrow> P x"
    and "\<And>x. 2 ^ 24 \<le> x \<Longrightarrow> P (x / 2) \<Longrightarrow> P x"
    and "\<And>x. 2 ^ 23 \<le> x \<Longrightarrow> x < 2 ^ 24 \<Longrightarrow> P x"
  shows "P x"
proof (induction x rule: to_binary32_pos.induct)
  case (1 x)
  consider "x \<le> 0" | "0 < x" "x < 2 ^ 23" | "2 ^ 24 \<le> x" | "2 ^ 23 \<le> x" "x < 2 ^ 24"
    by linarith
  then show ?case
  proof cases
    case 1
    then show ?thesis by (rule assms(1))
  next
    case 2
    from 2 have "P (2 * x)" by (intro "1.IH"(1)) simp_all
    with 2 show ?thesis by (rule assms(2))
  next
    case 3
    from 3 have "P (x / 2)" by (intro "1.IH"(2)) simp_all
    with 3 show ?thesis by (rule assms(3))
  next
    case 4
    then show ?thesis by (rule assms(4))
  qed
qed

lemma to_binary32_pos_nonneg: "0 \<le> to_binary32_pos x"
proof (induction x rule: to_binary32_pos_induct)
  case (nonpos x)
  then show ?case by (simp add: to_binary32_pos_nonpos)
next
  case (small x)
  then show ?case by (simp add: to_binary32_pos_small)
next
  case (big x)
  then show ?case by (simp add: to_binary32_pos_big)
next
  case (base x)
  have "0 \<le> \<lfloor>x\<rfloor>"
    using base by simp
  then have "0 \<le> round_half_even x"
    using round_half_even_ge_floor [of x] by linarith
  then show ?case
    using base by (simp add: to_binary32_pos_base)
qed

lemma abs_halved:
  fixes a x e :: real
  shows "abs (a - 2 * x) \<le> 2 * e \<Longrightarrow> abs (a / 2 - x) \<le> e"
  by (simp only: abs_le_iff) linarith

lemma abs_doubled:
  fixes a x e :: real
  shows "abs (a - x / 2) \<le> e / 2 \<Longrightarrow> abs (2 * a - x) \<le> e"
  by (simp only: abs_le_iff) linarith

lemma to_binary32_pos_error: "0 \<le> x \<Longrightarrow> abs (to_binary32_pos x - x) \<le> x / 2 ^ 24"
proof (induction x rule: to_binary32_pos_induct)
  case (nonpos x)
  then show ?case by (simp add: to_binary32_pos_nonpos)
next
  case (small x)
  then have "abs (to_binary32_pos (2 * x) - 2 * x) \<le> 2 * (x / 2 ^ 24)"
    by simp
  then have "abs (to_binary32_pos (2 * x) / 2 - x) \<le> x / 2 ^ 24"
    by (rule abs_halved)
  then show ?case
    using small.hyps by (simp only: to_binary32_pos_small)
next
  case (big x)
  then have "abs (to_binary32_pos (x / 2) - x / 2) \<le> x / 2 ^ 24 / 2"
    by simp
  then have "abs (2 * to_binary32_pos (x / 2) - x) \<le> x / 2 ^ 24"
    by (rule abs_doubled)
  then show ?case
    using big.hyps by (simp only: to_binary32_pos_big)
next
  case (base x)
  have "abs (real_of_int (round_half_even x) - x) \<le> 1 / 2"
    using round_half_even_upper [of x] round_half_even_lower [of x] by linarith
  also have "1 / 2 \<le> x / 2 ^ 24"
    using base by simp
  finally show ?case
    using base by (simp add: to_binary32_pos_base)
qed

lemma to_binary32_pos_ge_int:
  "0 < x \<Longrightarrow> x < 2 ^ 24 \<Longrightarrow> of_int q \<le> x \<Longrightarrow> of_int q \<le> to_binary32_pos x"
proof (induction x arbitrary: q rule: to_binary32_pos_induct)
  case (nonpos x)
  then show ?case by simp
next
  case (small x)
  have "of_int (2 * q) \<le> to_binary32_pos (2 * x)"
  proof (rule small.IH)
    show "0 < 2 * x" using small.hyps by simp
    show "2 * x < 2 ^ 24" using small.hyps by simp
    show "of_int (2 * q) \<le> 2 * x" using small.prems by simp
  qed
  then show ?case
    using small.hyps by (simp add: to_binary32_pos_small)
next
  case (big x)
  then show ?case by simp
next
  case (base x)
  have "q \<le> \<lfloor>x\<rfloor>"
    using base.prems by (simp add: le_floor_iff)
  then have "q \<le> round_half_even x"
    using round_half_even_ge_floor [of x] by linarith
  then show ?case
    using base.hyps by (simp add: to_binary32_pos_base)
qed

lemma to_binary32_pos_le_int:
  "0 < x \<Longrightarrow> x < 2 ^ 24 \<Longrightarrow> x \<le> of_int q \<Longrightarrow> to_binary32_pos x \<le> of_int q"
proof (induction x arbitrary: q rule: to_binary32_pos_induct)
  case (nonpos x)
  then show ?case by simp
next
  case (small x)
  have "to_binary32_pos (2 * x) \<le> of_int (2 * q)"
  proof (rule small.IH)
    show "0 < 2 * x" using small.hyps by simp
    show "2 * x < 2 ^ 24" using small.hyps by simp
    show "2 * x \<le> of_int (2 * q)" using small.prems by simp
  qed
  then show ?case
    using small.hyps by (simp add: to_binary32_pos_small)
next
  case (big x)
  then show ?case by simp
next
  case (base x)
  have "\<lceil>x\<rceil> \<le> q"
    using base.prems by (simp add: ceiling_le_iff)
  then have "round_half_even x \<le> q"
    using round_half_even_le_ceiling [of x] by linarith
  then show ?case
    using base.hyps by (simp add: to_binary32_pos_base)
qed

lemma to_binary32_error: "abs (to_binary32 x - x) \<le> abs x / 2 ^ 24"
proof -
  have e: "abs (to_binary32_pos (abs x) - abs x) \<le> abs x / 2 ^ 24"
    by (rule to_binary32_pos_error) simp
  consider "x < 0" | "x = 0" | "0 < x"
    by linarith
  then show ?thesis
  proof cases
    case 1
    then have "to_binary32 x - x = - (to_binary32_pos (abs x) - abs x)"
      by (simp add: to_binary32_def)
    then have "abs (to_binary32 x - x) = abs (to_binary32_pos (abs x) - abs x)"
      by (simp only: abs_minus_cancel)
    then show ?thesis
      using e by simp
  next
    case 2
    then show ?thesis by (simp add: to_binary32_def)
  next
    case 3
    then have "to_binary32 x - x = to_binary32_pos (abs x) - abs x"
      by (simp add: to_binary32_def)
    then show ?thesis
      using e by simp
  qed
qed

lemma to_binary32_of_nat: "a < 2 ^ 24 \<Longrightarrow> to_binary32 (real a) = real a"
proof (cases "a = 0")
  case True
  then show ?thesis by (simp add: to_binary32_def)
next
  case False
  assume "a < 2 ^ 24"
  then have lt: "real a < 2 ^ 24"
    by (metis of_nat_less_iff of_nat_numeral of_nat_power)
  from False have pos: "0 < real a" by simp
  have "real_of_int (int a) \<le> to_binary32_pos (real a)"
    by (rule to_binary32_pos_ge_int) (use pos lt in simp_all)
  moreover have "to_binary32_pos (real a) \<le> real_of_int (int a)"
    by (rule to_binary32_pos_le_int) (use pos lt in simp_all)
  ultimately show ?thesis
    using pos by (simp add: to_binary32_def)
qed

subsection \<open>Code width\<close>

lemma mask_unat: "compiles cfg \<Longrightarrow> unat (ADSX_CODE_MASK cfg) = 2 ^ ADSX_BITS cfg - 1"
  by (auto simp: compiles_def ADSX_CODE_MASK_def)

lemma mask_word: "compiles cfg \<Longrightarrow> ADSX_CODE_MASK cfg = 2 ^ ADSX_BITS cfg - 1"
  by (auto simp: compiles_def ADSX_CODE_MASK_def)

lemma one_shl_bits_unsigned:
  "compiles cfg \<Longrightarrow> (unsigned (2 ^ ADSX_BITS cfg :: u32) :: real) = 2 ^ ADSX_BITS cfg"
  by (auto simp: compiles_def)

lemma clamp_taken_iff:
  "compiles cfg \<Longrightarrow> code > ADSX_CODE_MASK cfg \<longleftrightarrow> unat code > 2 ^ ADSX_BITS cfg - 1"
  by (simp add: word_less_nat_alt mask_unat)

lemma adsxCodeToVolts_clamped:
  "code > ADSX_CODE_MASK cfg \<Longrightarrow>
     adsxCodeToVolts cfg st code = adsxCodeToVolts cfg st (ADSX_CODE_MASK cfg)"
  by (simp add: adsxCodeToVolts_def)

lemma multiplier_positive: "0 < fst (adsxRangeMultiplier code)"
  by (simp add: adsxRangeMultiplier_def Let_def)

lemma adsxCodeToVolts_in_range:
  assumes "compiles cfg" and "unat code \<le> 2 ^ ADSX_BITS cfg - 1"
  shows "adsxCodeToVolts cfg st code =
    (if snd (adsxRangeMultiplier (g_range_code st))
     then - (fst (adsxRangeMultiplier (g_range_code st)) * g_vref_volts st)
     else 0) +
    real (unat code) *
      ((fst (adsxRangeMultiplier (g_range_code st)) * g_vref_volts st -
        (if snd (adsxRangeMultiplier (g_range_code st))
         then - (fst (adsxRangeMultiplier (g_range_code st)) * g_vref_volts st)
         else 0)) / 2 ^ ADSX_BITS cfg)"
proof -
  from assms have "\<not> code > ADSX_CODE_MASK cfg"
    by (simp add: clamp_taken_iff)
  then show ?thesis
    using assms(1)
    by (simp add: adsxCodeToVolts_def Let_def one_shl_bits_unsigned split_beta)
qed

subsection \<open>What the bus operations and the averaging loop change\<close>

lemma xfer32_state:
  "snd (xfer32 dev b0 b1 b2 b3 st) = st\<lparr>spi_sent := spi_sent st @ [(b0, b1, b2, b3)]\<rparr>"
  by (simp add: xfer32_def split: prod.splits)

lemma frameNOP_state:
  "snd (frameNOP dev st) = st\<lparr>spi_sent := spi_sent st @ [(0, 0, 0, 0)]\<rparr>"
  by (simp add: frameNOP_def xfer32_state)

lemma adsxReadCodeRaw32_state:
  "snd (adsxReadCodeRaw32 dev st) =
     st\<lparr>spi_sent := spi_sent st @ [(0, 0, 0, 0), (0, 0, 0, 0)]\<rparr>"
  by (simp add: adsxReadCodeRaw32_def Let_def frameNOP_state)

lemma adsxReadCodeNbits_state:
  "snd (adsxReadCodeNbits dev cfg st) =
     st\<lparr>spi_sent := spi_sent st @ [(0, 0, 0, 0), (0, 0, 0, 0)]\<rparr>"
proof -
  have "snd (adsxReadCodeNbits dev cfg st) = snd (adsxReadCodeRaw32 dev st)"
    by (simp add: adsxReadCodeNbits_def split: prod.splits)
  then show ?thesis
    by (simp add: adsxReadCodeRaw32_state)
qed

lemma counter_step: "(i :: u16) < n \<Longrightarrow> unat (i + 1) = Suc (unat i)"
proof -
  assume less: "i < n"
  then have "unat i < unat n"
    by (simp add: word_less_nat_alt)
  moreover have "unat n < 2 ^ 16"
    using unsigned_less [of n] by simp
  moreover have "unat (i + 1) = (unat i + 1) mod 2 ^ 16"
    by (simp add: unat_word_ariths)
  ultimately show "unat (i + 1) = Suc (unat i)"
    by simp
qed

lemma read_loop_state:
  "snd (read_loop dev cfg n i acc st) =
     st\<lparr>spi_sent := spi_sent (snd (read_loop dev cfg n i acc st))\<rparr>"
proof (induction dev cfg n i acc st rule: read_loop.induct)
  case (1 dev cfg n i acc st)
  show ?case
  proof (cases "i < n")
    case False
    then show ?thesis
      by (simp add: read_loop.simps)
  next
    case True
    obtain code st1 where rd: "adsxReadCodeNbits dev cfg st = (code, st1)"
      by (cases "adsxReadCodeNbits dev cfg st")
    then have st1: "st1 = st\<lparr>spi_sent := spi_sent st @ [(0, 0, 0, 0), (0, 0, 0, 0)]\<rparr>"
      using adsxReadCodeNbits_state [of dev cfg st] by simp
    have step: "read_loop dev cfg n i acc st = read_loop dev cfg n (i + 1) (acc + code) st1"
      using True rd by (subst read_loop.simps) simp
    have "snd (read_loop dev cfg n (i + 1) (acc + code) st1) =
        st1\<lparr>spi_sent := spi_sent (snd (read_loop dev cfg n (i + 1) (acc + code) st1))\<rparr>"
      using "1.IH" [OF True rd [symmetric]] .
    then show ?thesis
      unfolding step by (subst (asm) st1) simp
  qed
qed

lemma read_loop_sum:
  "i \<le> n \<Longrightarrow>
     fst (read_loop dev cfg n i acc st) = acc + sum_list (samples dev cfg (unat n - unat i) st)"
proof (induction dev cfg n i acc st rule: read_loop.induct)
  case (1 dev cfg n i acc st)
  show ?case
  proof (cases "i < n")
    case False
    with "1.prems" have "i = n" by simp
    then show ?thesis
      by (simp add: read_loop.simps)
  next
    case True
    obtain code st1 where rd: "adsxReadCodeNbits dev cfg st = (code, st1)"
      by (cases "adsxReadCodeNbits dev cfg st")
    have step: "read_loop dev cfg n i acc st = read_loop dev cfg n (i + 1) (acc + code) st1"
      using True rd by (subst read_loop.simps) simp
    have suc: "unat (i + 1) = Suc (unat i)"
      using True by (rule counter_step)
    from True have lt: "unat i < unat n"
      by (simp add: word_less_nat_alt)
    then have le: "i + 1 \<le> n"
      using suc by (simp add: word_le_nat_alt)
    have count: "unat n - unat i = Suc (unat n - unat (i + 1))"
      using lt suc by simp
    have "fst (read_loop dev cfg n (i + 1) (acc + code) st1) =
        acc + code + sum_list (samples dev cfg (unat n - unat (i + 1)) st1)"
      using "1.IH" [OF True rd [symmetric] le] .
    then show ?thesis
      unfolding step count by (simp add: rd)
  qed
qed

lemma unat_sum_list:
  "unat (sum_list (ws :: u32 list)) = sum_list (map unat ws) mod 2 ^ 32"
proof (induction ws)
  case Nil
  show ?case by simp
next
  case (Cons w ws)
  have "unat (w + sum_list ws) = (unat w + unat (sum_list ws)) mod 2 ^ 32"
    by (simp add: unat_word_ariths)
  also have "\<dots> = (unat w + sum_list (map unat ws) mod 2 ^ 32) mod 2 ^ 32"
    by (simp only: Cons.IH)
  also have "\<dots> = (unat w + sum_list (map unat ws)) mod 2 ^ 32"
    by (rule mod_add_right_eq)
  finally show ?case by simp
qed

lemma length_samples: "length (samples dev cfg k st) = k"
  by (induction k arbitrary: st) (auto split: prod.splits)

lemma adsxReadCodeNbits_masked:
  "fst (adsxReadCodeNbits dev cfg st) \<le> ADSX_CODE_MASK cfg"
  by (simp add: adsxReadCodeNbits_def word_and_le1 split: prod.splits)

lemma samples_masked: "c \<in> set (samples dev cfg k st) \<Longrightarrow> c \<le> ADSX_CODE_MASK cfg"
proof (induction k arbitrary: st)
  case 0
  then show ?case by simp
next
  case (Suc k)
  obtain code st1 where rd: "adsxReadCodeNbits dev cfg st = (code, st1)"
    by (cases "adsxReadCodeNbits dev cfg st")
  then have "code \<le> ADSX_CODE_MASK cfg"
    using adsxReadCodeNbits_masked [of dev cfg st] by simp
  then show ?case
    using Suc rd by auto
qed

lemma adsxCodeToVolts_spi_sent [simp]:
  "adsxCodeToVolts cfg (st\<lparr>spi_sent := fs\<rparr>) code = adsxCodeToVolts cfg st code"
  by (simp add: adsxCodeToVolts_def)

lemma averaging_count_pos: "0 < unat (averaging_count st)"
proof (cases "g_num_averages st < 1")
  case True
  then show ?thesis by (simp add: averaging_count_def)
next
  case False
  then have "g_num_averages st \<noteq> 0"
    by (auto simp: word_less_1)
  then show ?thesis
    using False by (simp add: averaging_count_def unat_gt_0)
qed

lemma float_to_u32_quotient:
  "float_to_u32 (real a / real b) = word_of_nat (a div b)"
  by (simp add: float_to_u32_def floor_divide_of_nat_eq)

lemma uint_to_float_exact: "unat u < 2 ^ 24 \<Longrightarrow> uint_to_float u = real (unat u)"
  unfolding uint_to_float_def by (rule to_binary32_of_nat)

lemma averaging_count_float:
  "uint_to_float (averaging_count st) = real (unat (averaging_count st))"
proof (rule uint_to_float_exact)
  have "unat (averaging_count st) < 2 ^ 16"
    using unsigned_less [of "averaging_count st"] by simp
  then show "unat (averaging_count st) < 2 ^ 24"
    by simp
qed

lemma to_binary32_zero: "to_binary32 0 = 0"
  by (simp add: to_binary32_def)

lemma to_binary32_positive: "0 < x \<Longrightarrow> to_binary32 x = to_binary32_pos x"
  by (simp add: to_binary32_def)

lemma to_binary32_nonneg: "0 \<le> x \<Longrightarrow> 0 \<le> to_binary32 x"
  using to_binary32_pos_nonneg [of "abs x"] by (simp add: to_binary32_def sgn_if)

lemma rounded_quotient_floor:
  assumes "a < 2 ^ 24" and "0 < n"
  shows "\<lfloor>to_binary32 (real a / real n)\<rfloor> = int (a div n)"
proof (cases "a = 0")
  case True
  then show ?thesis by (simp add: to_binary32_zero)
next
  case False
  define y where "y = real a / real n"
  define q where "q = a div n"
  have n: "0 < real n" and n1: "1 \<le> real n"
    using assms(2) by simp_all
  have a: "real a < 2 ^ 24"
    using assms(1) by (metis of_nat_less_iff of_nat_numeral of_nat_power)
  have pos: "0 < y"
    unfolding y_def using False n by simp
  have "y \<le> real a"
    unfolding y_def using n1 by (simp add: divide_le_eq mult_le_cancel_left1)
  then have lt: "y < 2 ^ 24"
    using a by linarith
  have "real q \<le> y"
    unfolding q_def y_def by (rule of_nat_div_le_of_nat)
  then have "real_of_int (int q) \<le> y"
    by simp
  then have "real_of_int (int q) \<le> to_binary32_pos y"
    using pos lt by (intro to_binary32_pos_ge_int)
  then have lower: "real_of_int (int q) \<le> to_binary32 y"
    using pos by (simp add: to_binary32_positive)
  have "a = n * q + a mod n"
    unfolding q_def by simp
  moreover have "a mod n < n"
    using assms(2) by simp
  ultimately have "a + 1 \<le> n * q + n"
    by linarith
  then have "real (a + 1) \<le> real (n * q + n)"
    by (simp only: of_nat_le_iff)
  then have "real a + 1 \<le> real n * (real q + 1)"
    by (simp add: algebra_simps)
  then have "(real a + 1) / real n \<le> real q + 1"
    using n by (simp add: divide_le_eq mult.commute)
  then have room: "y + 1 / real n \<le> real q + 1"
    unfolding y_def by (simp add: add_divide_distrib)
  have "y / 2 ^ 24 = (real a / 2 ^ 24) / real n"
    unfolding y_def by simp
  also have "\<dots> < 1 / real n"
    using a n by (intro divide_strict_right_mono) simp_all
  finally have small: "y / 2 ^ 24 < 1 / real n" .
  have "abs (to_binary32 y - y) \<le> abs y / 2 ^ 24"
    by (rule to_binary32_error)
  then have "to_binary32 y \<le> y + y / 2 ^ 24"
    using pos by (simp only: abs_le_iff abs_of_pos) linarith
  then have upper: "to_binary32 y < real_of_int (int q) + 1"
    using small room by simp
  from lower upper have "\<lfloor>to_binary32 y\<rfloor> = int q"
    by (rule floor_unique)
  then show ?thesis
    by (simp only: y_def q_def)
qed

lemma truncated_average_small:
  assumes "a < 2 ^ 24" and "0 < n"
  shows "float_to_u32 (to_binary32 (real a / real n)) = word_of_nat (a div n)"
  by (simp only: float_to_u32_def rounded_quotient_floor [OF assms] nat_int)

lemma rounded_average_bounded:
  assumes "a \<le> m * n" and "0 < n" and "m < 2 ^ 18"
  shows "to_binary32 (to_binary32 (real a) / real n) < real m + 1"
proof -
  define k :: real where "k = 16777217 / 16777216"
  define A where "A = to_binary32 (real a)"
  define y where "y = A / real n"
  define Y where "Y = to_binary32 y"
  have k: "0 \<le> k" and kk: "0 \<le> k * k - 1"
    by (simp_all add: k_def)
  have n: "0 < real n"
    using assms(2) by simp
  have "abs (A - real a) \<le> abs (real a) / 2 ^ 24"
    unfolding A_def by (rule to_binary32_error)
  then have "A \<le> real a + real a / 2 ^ 24"
    by (simp only: abs_le_iff abs_of_nat) linarith
  then have A_le: "A \<le> real a * k"
    by (simp add: k_def algebra_simps)
  have A_ge: "0 \<le> A"
    unfolding A_def by (rule to_binary32_nonneg) simp
  have "real a \<le> real (m * n)"
    using assms(1) by (simp only: of_nat_le_iff)
  then have "real a * k \<le> real (m * n) * k"
    using k by (rule mult_right_mono)
  with A_le have "A \<le> real (m * n) * k"
    by (rule order_trans)
  also have "real (m * n) * k = real m * k * real n"
    by simp
  finally have "A \<le> real m * k * real n" .
  then have y_le: "y \<le> real m * k"
    unfolding y_def using n by (simp add: divide_le_eq)
  have y_ge: "0 \<le> y"
    unfolding y_def using A_ge n by simp
  have "abs (Y - y) \<le> abs y / 2 ^ 24"
    unfolding Y_def by (rule to_binary32_error)
  then have "Y \<le> y + y / 2 ^ 24"
    using y_ge by (simp only: abs_le_iff abs_of_nonneg) linarith
  then have "Y \<le> y * k"
    by (simp add: k_def algebra_simps)
  also have "y * k \<le> real m * k * k"
    using y_le k by (rule mult_right_mono)
  also have "real m * k * k = real m + real m * (k * k - 1)"
    by (simp add: algebra_simps)
  finally have Y_le: "Y \<le> real m + real m * (k * k - 1)" .
  have "real m \<le> 262143"
    using assms(3) by simp
  then have "real m * (k * k - 1) \<le> 262143 * (k * k - 1)"
    using kk by (rule mult_right_mono)
  also have "262143 * (k * k - 1) < 1"
    by (simp add: k_def)
  finally have "real m * (k * k - 1) < 1" .
  with Y_le show ?thesis
    unfolding Y_def y_def A_def by linarith
qed

lemma volts_raw_value:
  "fst (volts_raw dev cfg st) =
     adsxCodeToVolts cfg st
       (float_to_u32 (to_binary32
          (uint_to_float (sum_list (samples dev cfg (unat (averaging_count st)) st))
           / uint_to_float (averaging_count st))))"
proof -
  define n where "n = averaging_count st"
  obtain acc st1 where loop: "read_loop dev cfg n 0 0 st = (acc, st1)"
    by (cases "read_loop dev cfg n 0 0 st")
  have acc: "acc = sum_list (samples dev cfg (unat n) st)"
    using read_loop_sum [of 0 n dev cfg 0 st] loop by simp
  have st1: "st1 = st\<lparr>spi_sent := spi_sent st1\<rparr>"
    using read_loop_state [of dev cfg n 0 0 st] loop by simp
  have "fst (volts_raw dev cfg st) =
      adsxCodeToVolts cfg st1
        (float_to_u32 (to_binary32 (uint_to_float acc / uint_to_float n)))"
    using loop by (simp add: volts_raw_def n_def Let_def)
  also have "\<dots> = adsxCodeToVolts cfg st
        (float_to_u32 (to_binary32 (uint_to_float acc / uint_to_float n)))"
    by (subst st1) simp
  finally show ?thesis
    by (simp add: acc n_def)
qed

lemma volts_raw_small:
  assumes "unat (sum_list (samples dev cfg (unat (averaging_count st)) st)) < 2 ^ 24"
  shows "fst (volts_raw dev cfg st) =
     adsxCodeToVolts cfg st
       (word_of_nat (unat (sum_list (samples dev cfg (unat (averaging_count st)) st))
          div unat (averaging_count st)))"
  by (simp only: volts_raw_value uint_to_float_exact [OF assms] averaging_count_float
      truncated_average_small [OF assms averaging_count_pos])

lemma volts_raw_state:
  "snd (volts_raw dev cfg st) = st\<lparr>spi_sent := spi_sent (snd (volts_raw dev cfg st))\<rparr>"
proof -
  define n where "n = averaging_count st"
  obtain acc st1 where loop: "read_loop dev cfg n 0 0 st = (acc, st1)"
    by (cases "read_loop dev cfg n 0 0 st")
  have st1: "st1 = st\<lparr>spi_sent := spi_sent st1\<rparr>"
    using read_loop_state [of dev cfg n 0 0 st] loop by simp
  have "snd (volts_raw dev cfg st) = st1"
    using loop by (simp add: volts_raw_def n_def Let_def)
  then show ?thesis
    using st1 by simp
qed

lemma sum_list_bounded:
  "(\<And>c. c \<in> set ws \<Longrightarrow> unat c \<le> m) \<Longrightarrow> sum_list (map unat (ws :: u32 list)) \<le> length ws * m"
proof (induction ws)
  case Nil
  show ?case by simp
next
  case (Cons w ws)
  have "unat w \<le> m"
    using Cons.prems by simp
  moreover have "sum_list (map unat ws) \<le> length ws * m"
    using Cons by simp
  ultimately show ?case by simp
qed

lemma accumulated_sum_bounded:
  "unat (sum_list (samples dev cfg (unat (averaging_count st)) st))
     \<le> unat (ADSX_CODE_MASK cfg) * unat (averaging_count st)"
proof -
  define n where "n = unat (averaging_count st)"
  define ws where "ws = samples dev cfg n st"
  define m where "m = unat (ADSX_CODE_MASK cfg)"
  have "sum_list (map unat ws) \<le> length ws * m"
  proof (rule sum_list_bounded)
    fix c assume "c \<in> set ws"
    then show "unat c \<le> m"
      unfolding ws_def m_def using samples_masked [of c dev cfg n st]
      by (simp add: word_le_nat_alt)
  qed
  then have "sum_list (map unat ws) \<le> m * n"
    by (simp add: ws_def length_samples mult.commute)
  moreover have "unat (sum_list ws) \<le> sum_list (map unat ws)"
    by (simp add: unat_sum_list)
  ultimately show ?thesis
    unfolding n_def ws_def m_def by (rule order_trans [rotated])
qed

lemma averaged_code_in_range:
  "unat (word_of_nat (unat (sum_list (samples dev cfg (unat (averaging_count st)) st))
          div unat (averaging_count st)) :: u32) \<le> unat (ADSX_CODE_MASK cfg)"
proof -
  define n where "n = unat (averaging_count st)"
  define ws where "ws = samples dev cfg n st"
  define m where "m = unat (ADSX_CODE_MASK cfg)"
  have n: "0 < n"
    unfolding n_def by (rule averaging_count_pos)
  have "unat (sum_list ws) \<le> m * n"
    unfolding n_def ws_def m_def by (rule accumulated_sum_bounded)
  then have "unat (sum_list ws) div n \<le> m * n div n"
    by (rule div_le_mono)
  then have "unat (sum_list ws) div n \<le> m"
    using n by simp
  moreover have "unat (word_of_nat (unat (sum_list ws) div n) :: u32) \<le> unat (sum_list ws) div n"
    by (simp add: unat_of_nat)
  ultimately show ?thesis
    unfolding n_def ws_def m_def by (rule order_trans [rotated])
qed

lemma mask_below_2_18: "unat (ADSX_CODE_MASK cfg) < 2 ^ 18"
  by (simp add: ADSX_CODE_MASK_def)

lemma rounded_average_in_range:
  "unat (float_to_u32 (to_binary32
      (uint_to_float (sum_list (samples dev cfg (unat (averaging_count st)) st))
       / uint_to_float (averaging_count st))))
     \<le> unat (ADSX_CODE_MASK cfg)"
proof -
  define n where "n = unat (averaging_count st)"
  define a where "a = unat (sum_list (samples dev cfg n st))"
  define m where "m = unat (ADSX_CODE_MASK cfg)"
  define Y where "Y = to_binary32 (to_binary32 (real a) / real n)"
  have n: "0 < n"
    unfolding n_def by (rule averaging_count_pos)
  have a: "a \<le> m * n"
    unfolding a_def n_def m_def by (rule accumulated_sum_bounded)
  have m: "m < 2 ^ 18"
    unfolding m_def by (rule mask_below_2_18)
  have "Y < real m + 1"
    unfolding Y_def using a n m by (rule rounded_average_bounded)
  then have "Y < real_of_int (int m + 1)"
    by simp
  then have "\<lfloor>Y\<rfloor> < int m + 1"
    by (simp only: floor_less_iff)
  then have "nat \<lfloor>Y\<rfloor> \<le> m"
    by simp
  moreover have "unat (word_of_nat (nat \<lfloor>Y\<rfloor>) :: u32) \<le> nat \<lfloor>Y\<rfloor>"
    by (simp add: unat_of_nat)
  ultimately have "unat (float_to_u32 Y) \<le> m"
    unfolding float_to_u32_def by (rule order_trans [rotated])
  then show ?thesis
    unfolding Y_def a_def n_def m_def
    by (simp only: averaging_count_float) (simp only: uint_to_float_def)
qed

subsection \<open>The transfer function on codes in range\<close>

text \<open>
  Claim C1. For every code from 0 to \<open>2^N - 1\<close>, where \<open>N\<close> is the resolution (16 or
  18), \<open>adsxCodeToVolts\<close> returns \<open>NFS + code * LSB\<close>: \<open>PFS\<close> is the multiplier of the
  active range times the reference voltage, \<open>NFS\<close> is \<open>- PFS\<close> for a bipolar range and 0
  for a unipolar one, \<open>FSR = PFS - NFS\<close> and \<open>LSB = FSR / 2^N\<close>.
\<close>

theorem adsxCodeToVolts_formula:
  assumes "compiles cfg" and "unat code \<le> 2 ^ ADSX_BITS cfg - 1"
  shows "adsxCodeToVolts cfg st code =
    (let multiplier = fst (adsxRangeMultiplier (g_range_code st));
         bipolar = snd (adsxRangeMultiplier (g_range_code st));
         PFS = multiplier * g_vref_volts st;
         NFS = (if bipolar then - PFS else 0);
         FSR = PFS - NFS;
         LSB = FSR / 2 ^ ADSX_BITS cfg
     in NFS + real (unat code) * LSB)"
proof -
  from assms have "\<not> code > ADSX_CODE_MASK cfg"
    by (simp add: clamp_taken_iff)
  then show ?thesis
    using assms(1)
    by (simp add: adsxCodeToVolts_def Let_def one_shl_bits_unsigned split_beta)
qed

theorem adsxCodeToVolts_formula_witness:
  "compiles as_shipped \<and> unat (32768 :: u32) \<le> 2 ^ ADSX_BITS as_shipped - 1
   \<and> adsxCodeToVolts as_shipped power_on 32768 = 0
   \<and> compiles (as_shipped\<lparr>ADSX_BITS := 18\<rparr>)
   \<and> unat (262143 :: u32) \<le> 2 ^ ADSX_BITS (as_shipped\<lparr>ADSX_BITS := 18\<rparr>) - 1
   \<and> adsxCodeToVolts (as_shipped\<lparr>ADSX_BITS := 18\<rparr>) power_on 262143
        = - 12.288 + 262143 * (24.576 / 262144)"
  using adsxCodeToVolts_formula [of as_shipped 32768 power_on]
    adsxCodeToVolts_formula [of "as_shipped\<lparr>ADSX_BITS := 18\<rparr>" 262143 power_on]
  by (simp add: compiles_def as_shipped_def power_on_def adsxRangeMultiplier_def range_codes Let_def)

subsection \<open>Codes above the maximum\<close>

text \<open>
  Claim C7. For every code greater than the largest code \<open>2^N - 1\<close>, \<open>adsxCodeToVolts\<close>
  gives what it gives for \<open>2^N - 1\<close>; in particular it gives the same volts for \<open>2^N\<close>
  and for \<open>2^N - 1\<close>. Nothing is signalled: the function only returns the volts.
\<close>

theorem adsxCodeToVolts_above_max:
  assumes "compiles cfg" and "unat code > 2 ^ ADSX_BITS cfg - 1"
  shows "adsxCodeToVolts cfg st code = adsxCodeToVolts cfg st (2 ^ ADSX_BITS cfg - 1)
     \<and> adsxCodeToVolts cfg st (2 ^ ADSX_BITS cfg) = adsxCodeToVolts cfg st (2 ^ ADSX_BITS cfg - 1)"
proof
  from assms have "code > ADSX_CODE_MASK cfg"
    by (simp add: clamp_taken_iff)
  then show "adsxCodeToVolts cfg st code = adsxCodeToVolts cfg st (2 ^ ADSX_BITS cfg - 1)"
    using assms(1) by (simp add: adsxCodeToVolts_clamped mask_word)
next
  from assms(1) have "(2 ^ ADSX_BITS cfg :: u32) > ADSX_CODE_MASK cfg"
    by (auto simp: compiles_def ADSX_CODE_MASK_def)
  then show "adsxCodeToVolts cfg st (2 ^ ADSX_BITS cfg) = adsxCodeToVolts cfg st (2 ^ ADSX_BITS cfg - 1)"
    using assms(1) by (simp add: adsxCodeToVolts_clamped mask_word)
qed

theorem adsxCodeToVolts_above_max_witness:
  "compiles as_shipped \<and> unat (70000 :: u32) > 2 ^ ADSX_BITS as_shipped - 1
   \<and> adsxCodeToVolts as_shipped power_on 70000 = adsxCodeToVolts as_shipped power_on 65535
   \<and> adsxCodeToVolts as_shipped power_on 65536 = adsxCodeToVolts as_shipped power_on 65535
   \<and> adsxCodeToVolts as_shipped power_on 65535 = 12.288 - 24.576 / 65536"
  using adsxCodeToVolts_above_max [of as_shipped 70000 power_on]
  by (simp add: compiles_def as_shipped_def power_on_def adsxCodeToVolts_def ADSX_CODE_MASK_def
      adsxRangeMultiplier_def range_codes Let_def)

subsection \<open>Bipolar ranges\<close>

text \<open>
  Claim C8. For every bipolar range, \<open>adsxCodeToVolts\<close> at code 0 is minus the
  multiplier times the reference voltage, and, the reference voltage being positive,
  \<open>adsxCodeToVolts\<close> increases with the code over the codes from 0 to \<open>2^N - 1\<close>. In
  the exact arithmetic of the model the volts at code 0 are equal to that product, and
  a greater code gives strictly greater volts.
\<close>

theorem bipolar_zero_and_monotone:
  assumes "compiles cfg" and "snd (adsxRangeMultiplier (g_range_code st))"
  shows "adsxCodeToVolts cfg st 0 = - (fst (adsxRangeMultiplier (g_range_code st)) * g_vref_volts st)
    \<and> (0 < g_vref_volts st \<longrightarrow>
         (\<forall>c1 c2. unat c1 < unat c2 \<and> unat c2 \<le> 2 ^ ADSX_BITS cfg - 1 \<longrightarrow>
            adsxCodeToVolts cfg st c1 < adsxCodeToVolts cfg st c2))"
proof (intro conjI impI allI)
  show "adsxCodeToVolts cfg st 0 = - (fst (adsxRangeMultiplier (g_range_code st)) * g_vref_volts st)"
    using assms by (simp add: adsxCodeToVolts_in_range)
next
  fix c1 c2 :: u32
  assume vref: "0 < g_vref_volts st"
    and codes: "unat c1 < unat c2 \<and> unat c2 \<le> 2 ^ ADSX_BITS cfg - 1"
  define PFS where "PFS = fst (adsxRangeMultiplier (g_range_code st)) * g_vref_volts st"
  have "0 < PFS"
    unfolding PFS_def using vref multiplier_positive by simp
  then have lsb: "0 < (PFS - - PFS) / 2 ^ ADSX_BITS cfg"
    by simp
  have "real (unat c1) < real (unat c2)"
    using codes by (simp only: of_nat_less_iff)
  then have "real (unat c1) * ((PFS - - PFS) / 2 ^ ADSX_BITS cfg)
      < real (unat c2) * ((PFS - - PFS) / 2 ^ ADSX_BITS cfg)"
    using lsb by (rule mult_strict_right_mono)
  moreover have "adsxCodeToVolts cfg st c1 = - PFS + real (unat c1) * ((PFS - - PFS) / 2 ^ ADSX_BITS cfg)"
    unfolding PFS_def using assms codes by (subst adsxCodeToVolts_in_range) simp_all
  moreover have "adsxCodeToVolts cfg st c2 = - PFS + real (unat c2) * ((PFS - - PFS) / 2 ^ ADSX_BITS cfg)"
    unfolding PFS_def using assms codes by (subst adsxCodeToVolts_in_range) simp_all
  ultimately show "adsxCodeToVolts cfg st c1 < adsxCodeToVolts cfg st c2"
    by simp
qed

theorem bipolar_zero_and_monotone_witness:
  "compiles as_shipped \<and> snd (adsxRangeMultiplier (g_range_code power_on))
   \<and> 0 < g_vref_volts power_on
   \<and> unat (100 :: u32) < unat (65535 :: u32) \<and> unat (65535 :: u32) \<le> 2 ^ ADSX_BITS as_shipped - 1
   \<and> adsxCodeToVolts as_shipped power_on 0 = - 12.288
   \<and> adsxCodeToVolts as_shipped power_on 100 < adsxCodeToVolts as_shipped power_on 65535"
proof -
  have a: "compiles as_shipped"
    by (simp add: compiles_def as_shipped_def)
  have b: "snd (adsxRangeMultiplier (g_range_code power_on))"
    by (simp add: power_on_def adsxRangeMultiplier_def range_codes)
  have c: "0 < g_vref_volts power_on"
    by (simp add: power_on_def)
  have d: "unat (100 :: u32) < unat (65535 :: u32) \<and> unat (65535 :: u32) \<le> 2 ^ ADSX_BITS as_shipped - 1"
    by (simp add: as_shipped_def)
  have e: "fst (adsxRangeMultiplier (g_range_code power_on)) * g_vref_volts power_on = 12.288"
    by (simp add: power_on_def adsxRangeMultiplier_def range_codes)
  from bipolar_zero_and_monotone [OF a b] c d e show ?thesis
    using a b by simp
qed

subsection \<open>Acquired codes\<close>

text \<open>
  Claim C9. Every code that \<open>adsxReadCodeNbits\<close> returns lies between 0 and
  \<open>2^N - 1\<close>, because the shifted word is masked with the code mask; so the test
  \<open>codeN > ADSX_CODE_MASK\<close> that guards the clamp of \<open>adsxCodeToVolts\<close> is false
  for it. The same holds for the truncated average of acquired codes, which is the
  argument \<open>adsxReadAveragedVolts\<close> passes to \<open>adsxCodeToVolts\<close>: for the exact
  quotient of the accumulator by the count, and for the quotient the sketch computes in
  single precision.
\<close>

theorem acquired_code_never_clamped:
  assumes "compiles cfg"
  shows "unat (fst (adsxReadCodeNbits dev cfg st)) \<le> 2 ^ ADSX_BITS cfg - 1
    \<and> \<not> fst (adsxReadCodeNbits dev cfg st) > ADSX_CODE_MASK cfg
    \<and> \<not> float_to_u32 (real (unat (fst (read_loop dev cfg (averaging_count st) 0 0 st)))
            / real (unat (averaging_count st))) > ADSX_CODE_MASK cfg
    \<and> \<not> float_to_u32 (to_binary32
            (uint_to_float (fst (read_loop dev cfg (averaging_count st) 0 0 st))
             / uint_to_float (averaging_count st))) > ADSX_CODE_MASK cfg"
proof (intro conjI)
  have masked: "fst (adsxReadCodeNbits dev cfg st) \<le> ADSX_CODE_MASK cfg"
    by (rule adsxReadCodeNbits_masked)
  then show "unat (fst (adsxReadCodeNbits dev cfg st)) \<le> 2 ^ ADSX_BITS cfg - 1"
    using assms by (simp add: word_le_nat_alt mask_unat)
  from masked show "\<not> fst (adsxReadCodeNbits dev cfg st) > ADSX_CODE_MASK cfg"
    by simp
  have sum: "fst (read_loop dev cfg (averaging_count st) 0 0 st) =
      sum_list (samples dev cfg (unat (averaging_count st)) st)"
    using read_loop_sum [of 0 "averaging_count st" dev cfg 0 st] by simp
  then have "float_to_u32 (real (unat (fst (read_loop dev cfg (averaging_count st) 0 0 st)))
        / real (unat (averaging_count st))) =
      word_of_nat (unat (sum_list (samples dev cfg (unat (averaging_count st)) st))
        div unat (averaging_count st))"
    by (simp only: float_to_u32_quotient)
  then show "\<not> float_to_u32 (real (unat (fst (read_loop dev cfg (averaging_count st) 0 0 st)))
        / real (unat (averaging_count st))) > ADSX_CODE_MASK cfg"
    using averaged_code_in_range [of dev cfg st] by (simp add: word_le_nat_alt not_less)
  show "\<not> float_to_u32 (to_binary32
        (uint_to_float (fst (read_loop dev cfg (averaging_count st) 0 0 st))
         / uint_to_float (averaging_count st))) > ADSX_CODE_MASK cfg"
    unfolding sum using rounded_average_in_range [of dev cfg st]
    by (simp only: word_le_nat_alt not_less)
qed

theorem acquired_code_never_clamped_witness:
  "compiles as_shipped
   \<and> fst (adsxReadCodeNbits one_count_adc as_shipped (setup_sketch one_count_adc as_shipped power_on)) = 1
   \<and> unat (fst (adsxReadCodeNbits one_count_adc as_shipped (setup_sketch one_count_adc as_shipped power_on)))
        \<le> 2 ^ ADSX_BITS as_shipped - 1
   \<and> \<not> fst (adsxReadCodeNbits one_count_adc as_shipped (setup_sketch one_count_adc as_shipped power_on))
          > ADSX_CODE_MASK as_shipped"
proof -
  have "compiles as_shipped"
    by (simp add: compiles_def as_shipped_def)
  moreover have "fst (adsxReadCodeNbits one_count_adc as_shipped
      (setup_sketch one_count_adc as_shipped power_on)) = 1"
    by (simp add: adsxReadCodeNbits_def adsxReadCodeRaw32_def frameNOP_def xfer32_def
        setup_sketch_def adsxSetVrefVolts_def adsxSetRange_def writeRegHWord_def two_point_fit_def
        print_def power_on_def as_shipped_def one_count_adc_def ADSX_CODE_SHIFT_def
        ADSX_CODE_MASK_def Let_def)
  ultimately show ?thesis
    using acquired_code_never_clamped [of as_shipped one_count_adc
        "setup_sketch one_count_adc as_shipped power_on"]
    by simp
qed

subsection \<open>The reference voltage\<close>

lemma adsxSetRange_state:
  "adsxSetRange dev rc ir st =
     st\<lparr>g_range_code := rc AND 0x000F, g_useInternalRef := ir,
        spi_sent := spi_sent (adsxSetRange dev rc ir st)\<rparr>"
  by (simp add: adsxSetRange_def writeRegHWord_def Let_def xfer32_state frameNOP_state)

lemma adsxReadAveragedVolts_state:
  "snd (adsxReadAveragedVolts dev cfg st) =
     st\<lparr>spi_sent := spi_sent (snd (adsxReadAveragedVolts dev cfg st))\<rparr>"
proof -
  have "snd (adsxReadAveragedVolts dev cfg st) = snd (volts_raw dev cfg st)"
    by (simp add: adsxReadAveragedVolts_def split: prod.splits)
  then show ?thesis
    using volts_raw_state [of dev cfg st] by simp
qed

lemma vref_adsxSetRange: "g_vref_volts (adsxSetRange dev rc ir st) = g_vref_volts st"
  by (subst adsxSetRange_state) simp

lemma vref_adsxReadAveragedVolts:
  "g_vref_volts (snd (adsxReadAveragedVolts dev cfg st)) = g_vref_volts st"
  by (subst adsxReadAveragedVolts_state) simp

lemma vref_loop: "g_vref_volts (loop dev cfg st) = g_vref_volts st"
proof -
  have "loop dev cfg st =
      print (Volts (fst (adsxReadAveragedVolts dev cfg st))) (snd (adsxReadAveragedVolts dev cfg st))"
    by (simp add: loop_def split: prod.splits)
  then show ?thesis
    by (simp add: print_def vref_adsxReadAveragedVolts)
qed

lemma vref_two_point_fit: "g_vref_volts (two_point_fit cfg st) = g_vref_volts st"
  by (simp add: two_point_fit_def print_def Let_def)

lemma vref_setup_sketch: "g_vref_volts (setup_sketch dev cfg st) = 4.096"
  by (simp add: setup_sketch_def Let_def print_def vref_two_point_fit vref_adsxSetRange
      adsxSetVrefVolts_def)

lemma vref_adsxSetVrefVolts:
  "g_vref_volts (adsxSetVrefVolts v st) = (if 0 < v then v else g_vref_volts st)"
  by (simp add: adsxSetVrefVolts_def)

lemma reachable_vref_positive: "reachable dev cfg st \<Longrightarrow> 0 < g_vref_volts st"
proof (induction rule: reachable.induct)
  case start
  show ?case by (simp add: vref_setup_sketch)
next
  case (after_loop st)
  then show ?case by (simp add: vref_loop)
next
  case (after_set_vref st v)
  then show ?case by (simp add: vref_adsxSetVrefVolts)
next
  case (after_set_range st rc ir)
  then show ?case by (simp add: vref_adsxSetRange)
qed

text \<open>
  Claim C10. The reference voltage stays strictly positive: \<open>adsxSetVrefVolts\<close> stores
  its argument only when the argument is greater than zero and otherwise leaves the
  state as it is; changing the range, reading, the main loop and the calibration fit do
  not write it; the initial value and the value after start-up are 4.096; so the
  reference voltage is positive in every state the sketch reaches.
\<close>

theorem reference_voltage_positive:
  "(0 < v \<longrightarrow> g_vref_volts (adsxSetVrefVolts v st) = v)
   \<and> (\<not> 0 < v \<longrightarrow> adsxSetVrefVolts v st = st)
   \<and> g_vref_volts (adsxSetRange dev rc ir st) = g_vref_volts st
   \<and> g_vref_volts (snd (adsxReadAveragedVolts dev cfg st)) = g_vref_volts st
   \<and> g_vref_volts (loop dev cfg st) = g_vref_volts st
   \<and> g_vref_volts (two_point_fit cfg st) = g_vref_volts st
   \<and> g_vref_volts power_on = 4.096
   \<and> g_vref_volts (setup_sketch dev cfg st) = 4.096
   \<and> (reachable dev cfg st \<longrightarrow> 0 < g_vref_volts st)"
  by (simp add: vref_adsxSetRange vref_adsxReadAveragedVolts vref_loop vref_two_point_fit
      vref_setup_sketch reachable_vref_positive adsxSetVrefVolts_def power_on_def)

theorem reference_voltage_positive_witness:
  "reachable quiet_adc as_shipped
     (adsxSetVrefVolts (- 1) (loop quiet_adc as_shipped (setup_sketch quiet_adc as_shipped power_on)))
   \<and> 0 < g_vref_volts
       (adsxSetVrefVolts (- 1) (loop quiet_adc as_shipped (setup_sketch quiet_adc as_shipped power_on)))
   \<and> g_vref_volts (adsxSetVrefVolts 2.5 power_on) = 2.5
   \<and> adsxSetVrefVolts (- 1) power_on = power_on"
proof -
  have r: "reachable quiet_adc as_shipped
      (adsxSetVrefVolts (- 1) (loop quiet_adc as_shipped (setup_sketch quiet_adc as_shipped power_on)))"
    by (intro reachable.after_set_vref reachable.after_loop reachable.start)
  have pos: "(0 :: real) < 2.5" and neg: "\<not> (0 :: real) < - 1"
    by simp_all
  from r have "0 < g_vref_volts
      (adsxSetVrefVolts (- 1) (loop quiet_adc as_shipped (setup_sketch quiet_adc as_shipped power_on)))"
    using reference_voltage_positive [of _
        "adsxSetVrefVolts (- 1) (loop quiet_adc as_shipped (setup_sketch quiet_adc as_shipped power_on))"
        quiet_adc _ _ as_shipped]
    by blast
  moreover have "g_vref_volts (adsxSetVrefVolts 2.5 power_on) = 2.5"
    using pos reference_voltage_positive [of "2.5" power_on] by blast
  moreover have "adsxSetVrefVolts (- 1) power_on = power_on"
    using neg reference_voltage_positive [of "- 1" power_on] by blast
  ultimately show ?thesis
    using r by blast
qed

subsection \<open>The calibration model\<close>

lemma two_point_fit_cal_fields:
  assumes "g_cal_slope st2 = g_cal_slope st" and "g_cal_offset st2 = g_cal_offset st"
  shows "g_cal_enabled (two_point_fit cfg st2) = g_cal_enabled (two_point_fit cfg st)
   \<and> g_cal_slope (two_point_fit cfg st2) = g_cal_slope (two_point_fit cfg st)
   \<and> g_cal_offset (two_point_fit cfg st2) = g_cal_offset (two_point_fit cfg st)"
  using assms by (simp add: two_point_fit_def Let_def print_def)

lemma setup_sketch_cal_fields:
  "g_cal_enabled (setup_sketch dev cfg st) = g_cal_enabled (two_point_fit cfg st)
   \<and> g_cal_slope (setup_sketch dev cfg st) = g_cal_slope (two_point_fit cfg st)
   \<and> g_cal_offset (setup_sketch dev cfg st) = g_cal_offset (two_point_fit cfg st)"
proof -
  define st1 where "st1 = adsxSetVrefVolts 4.096 st"
  define st2 where "st2 = adsxSetRange dev (g_range_code st1) True st1"
  have s: "setup_sketch dev cfg st = print (Configured (ADSX_BITS cfg)) (two_point_fit cfg st2)"
    by (simp add: setup_sketch_def Let_def st1_def st2_def)
  have "g_cal_slope st2 = g_cal_slope st" and "g_cal_offset st2 = g_cal_offset st"
    unfolding st2_def st1_def by (subst adsxSetRange_state, simp add: adsxSetVrefVolts_def)+
  then have "g_cal_enabled (two_point_fit cfg st2) = g_cal_enabled (two_point_fit cfg st)
      \<and> g_cal_slope (two_point_fit cfg st2) = g_cal_slope (two_point_fit cfg st)
      \<and> g_cal_offset (two_point_fit cfg st2) = g_cal_offset (two_point_fit cfg st)"
    by (rule two_point_fit_cal_fields)
  then show ?thesis
    by (simp add: s print_def)
qed

lemma setup_sketch_range: "g_range_code (setup_sketch dev cfg st) = g_range_code st AND 0x000F"
proof -
  define st1 where "st1 = adsxSetVrefVolts 4.096 st"
  define st2 where "st2 = adsxSetRange dev (g_range_code st1) True st1"
  have s: "setup_sketch dev cfg st = print (Configured (ADSX_BITS cfg)) (two_point_fit cfg st2)"
    by (simp add: setup_sketch_def Let_def st1_def st2_def)
  have "g_range_code st2 = g_range_code st AND 0x000F"
    unfolding st2_def st1_def by (subst adsxSetRange_state) (simp add: adsxSetVrefVolts_def)
  then show ?thesis
    by (simp add: s print_def two_point_fit_def Let_def)
qed

lemma fit_when_distinct:
  assumes "ADSX_ENABLE_TWO_POINT_CAL cfg"
    and "ADSX_CAL_P1_MEASURED cfg \<noteq> ADSX_CAL_P2_MEASURED cfg"
  shows "g_cal_enabled (two_point_fit cfg st)"
    and "g_cal_slope (two_point_fit cfg st) =
      (ADSX_CAL_P2_ACTUAL cfg - ADSX_CAL_P1_ACTUAL cfg) /
      (ADSX_CAL_P2_MEASURED cfg - ADSX_CAL_P1_MEASURED cfg)"
    and "g_cal_offset (two_point_fit cfg st) =
      ADSX_CAL_P1_ACTUAL cfg -
      (ADSX_CAL_P2_ACTUAL cfg - ADSX_CAL_P1_ACTUAL cfg) /
      (ADSX_CAL_P2_MEASURED cfg - ADSX_CAL_P1_MEASURED cfg) * ADSX_CAL_P1_MEASURED cfg"
  using assms by (simp_all add: two_point_fit_def Let_def print_def)

lemma fit_when_identical:
  "ADSX_CAL_P1_MEASURED cfg = ADSX_CAL_P2_MEASURED cfg \<Longrightarrow> \<not> g_cal_enabled (two_point_fit cfg st)"
  by (simp add: two_point_fit_def Let_def print_def)

lemma cal_fields_adsxSetRange:
  "g_cal_enabled (adsxSetRange dev rc ir st) = g_cal_enabled st
   \<and> g_cal_slope (adsxSetRange dev rc ir st) = g_cal_slope st
   \<and> g_cal_offset (adsxSetRange dev rc ir st) = g_cal_offset st"
  by (subst (1 2 3) adsxSetRange_state) simp

lemma cal_fields_loop:
  "g_cal_enabled (loop dev cfg st) = g_cal_enabled st
   \<and> g_cal_slope (loop dev cfg st) = g_cal_slope st
   \<and> g_cal_offset (loop dev cfg st) = g_cal_offset st"
proof -
  have l: "loop dev cfg st =
      print (Volts (fst (adsxReadAveragedVolts dev cfg st))) (snd (adsxReadAveragedVolts dev cfg st))"
    by (simp add: loop_def split: prod.splits)
  show ?thesis
    unfolding l print_def by (subst (1 2 3) adsxReadAveragedVolts_state) simp
qed

lemma reachable_cal_fields:
  "reachable dev cfg s \<Longrightarrow>
     g_cal_enabled s = g_cal_enabled (two_point_fit cfg power_on)
     \<and> g_cal_slope s = g_cal_slope (two_point_fit cfg power_on)
     \<and> g_cal_offset s = g_cal_offset (two_point_fit cfg power_on)"
proof (induction rule: reachable.induct)
  case start
  show ?case by (rule setup_sketch_cal_fields)
next
  case (after_loop st)
  then show ?case by (simp add: cal_fields_loop)
next
  case (after_set_vref st v)
  then show ?case by (simp add: adsxSetVrefVolts_def)
next
  case (after_set_range st rc ir)
  then show ?case by (simp add: cal_fields_adsxSetRange)
qed

lemma correction_applied:
  assumes "ADSX_ENABLE_TWO_POINT_CAL cfg" and "g_cal_enabled s"
    and "g_range_code s = ADSX_CAL_RANGE_CODE cfg"
  shows "fst (adsxReadAveragedVolts dev cfg s) =
    g_cal_offset s + g_cal_slope s * fst (volts_raw dev cfg s)"
proof -
  obtain v s1 where raw: "volts_raw dev cfg s = (v, s1)"
    by (cases "volts_raw dev cfg s")
  then have s1: "s1 = s\<lparr>spi_sent := spi_sent s1\<rparr>"
    using volts_raw_state [of dev cfg s] by simp
  have "g_cal_enabled s1" and "g_range_code s1 = ADSX_CAL_RANGE_CODE cfg"
    and "g_cal_offset s1 = g_cal_offset s" and "g_cal_slope s1 = g_cal_slope s"
    using assms by (subst s1, simp)+
  then show ?thesis
    using assms(1) raw by (simp add: adsxReadAveragedVolts_def)
qed

lemma correction_skipped:
  assumes "\<not> ADSX_ENABLE_TWO_POINT_CAL cfg \<or> \<not> g_cal_enabled s
    \<or> g_range_code s \<noteq> ADSX_CAL_RANGE_CODE cfg"
  shows "adsxReadAveragedVolts dev cfg s = volts_raw dev cfg s"
proof -
  obtain v s1 where raw: "volts_raw dev cfg s = (v, s1)"
    by (cases "volts_raw dev cfg s")
  then have s1: "s1 = s\<lparr>spi_sent := spi_sent s1\<rparr>"
    using volts_raw_state [of dev cfg s] by simp
  have "g_cal_enabled s1 = g_cal_enabled s" and "g_range_code s1 = g_range_code s"
    by (subst s1, simp)+
  then show ?thesis
    using assms raw by (auto simp: adsxReadAveragedVolts_def)
qed

lemma quiet_code: "fst (adsxReadCodeNbits quiet_adc cfg st) = 0"
  by (simp add: adsxReadCodeNbits_def adsxReadCodeRaw32_def frameNOP_def xfer32_def
      quiet_adc_def Let_def)

lemma quiet_samples: "sum_list (samples quiet_adc cfg k st) = 0"
proof (induction k arbitrary: st)
  case 0
  show ?case by simp
next
  case (Suc k)
  obtain code st1 where rd: "adsxReadCodeNbits quiet_adc cfg st = (code, st1)"
    by (cases "adsxReadCodeNbits quiet_adc cfg st")
  then have "code = 0"
    using quiet_code [of cfg st] by simp
  then show ?case
    using Suc rd by simp
qed

lemma quiet_volts_raw: "fst (volts_raw quiet_adc cfg st) = adsxCodeToVolts cfg st 0"
  by (subst volts_raw_small) (simp_all add: quiet_samples)

lemma cal_on_fields:
  "ADSX_ENABLE_TWO_POINT_CAL cal_on" "ADSX_BITS cal_on = 16"
  "ADSX_CAL_RANGE_CODE cal_on = ADSX_RANGE_BIPOLAR_3X"
  "ADSX_CAL_P1_ACTUAL cal_on = - 10.0002" "ADSX_CAL_P1_MEASURED cal_on = - 10.0017"
  "ADSX_CAL_P2_ACTUAL cal_on = 10.0027" "ADSX_CAL_P2_MEASURED cal_on = 10.0045"
  by (simp_all add: cal_on_def as_shipped_def)

lemma volts_at_zero_bipolar_3x:
  assumes "ADSX_BITS cfg = 16" and "g_range_code st = ADSX_RANGE_BIPOLAR_3X"
    and "g_vref_volts st = 4.096"
  shows "adsxCodeToVolts cfg st 0 = - 12.288"
  using assms
  by (simp add: adsxCodeToVolts_def adsxRangeMultiplier_def range_codes Let_def ADSX_CODE_MASK_def)

subsection \<open>The two-point fit\<close>

text \<open>
  Claim C2. With the calibration compiled in and two calibration points whose measured
  values differ, start-up leaves an enabled model with slope
  \<open>(p2_actual - p1_actual) / (p2_measured - p1_measured)\<close> and offset
  \<open>p1_actual - slope * p1_measured\<close>; the model stays so in every state reached
  afterwards; and where the averaged read applies the model (the active range being the
  one the calibration is tied to) it returns \<open>offset + slope * v\<close> for the raw voltage
  \<open>v\<close>.
\<close>

theorem fit_and_correction:
  assumes "ADSX_ENABLE_TWO_POINT_CAL cfg"
    and "ADSX_CAL_P1_MEASURED cfg \<noteq> ADSX_CAL_P2_MEASURED cfg"
  shows
    "(let slope = (ADSX_CAL_P2_ACTUAL cfg - ADSX_CAL_P1_ACTUAL cfg) /
                  (ADSX_CAL_P2_MEASURED cfg - ADSX_CAL_P1_MEASURED cfg);
          offset = ADSX_CAL_P1_ACTUAL cfg - slope * ADSX_CAL_P1_MEASURED cfg
      in g_cal_enabled (setup_sketch dev cfg st)
         \<and> g_cal_slope (setup_sketch dev cfg st) = slope
         \<and> g_cal_offset (setup_sketch dev cfg st) = offset
         \<and> (reachable dev cfg s \<longrightarrow>
               g_cal_enabled s \<and> g_cal_slope s = slope \<and> g_cal_offset s = offset)
         \<and> (reachable dev cfg s \<and> g_range_code s = ADSX_CAL_RANGE_CODE cfg \<longrightarrow>
               fst (adsxReadAveragedVolts dev cfg s) = offset + slope * fst (volts_raw dev cfg s)))"
proof -
  note fit = fit_when_distinct [OF assms]
  have after_setup: "g_cal_enabled (setup_sketch dev cfg st)
      \<and> g_cal_slope (setup_sketch dev cfg st) =
          (ADSX_CAL_P2_ACTUAL cfg - ADSX_CAL_P1_ACTUAL cfg) /
          (ADSX_CAL_P2_MEASURED cfg - ADSX_CAL_P1_MEASURED cfg)
      \<and> g_cal_offset (setup_sketch dev cfg st) =
          ADSX_CAL_P1_ACTUAL cfg -
          (ADSX_CAL_P2_ACTUAL cfg - ADSX_CAL_P1_ACTUAL cfg) /
          (ADSX_CAL_P2_MEASURED cfg - ADSX_CAL_P1_MEASURED cfg) * ADSX_CAL_P1_MEASURED cfg"
    using setup_sketch_cal_fields [of dev cfg st] fit [of st] by simp
  have later: "g_cal_enabled s
      \<and> g_cal_slope s =
          (ADSX_CAL_P2_ACTUAL cfg - ADSX_CAL_P1_ACTUAL cfg) /
          (ADSX_CAL_P2_MEASURED cfg - ADSX_CAL_P1_MEASURED cfg)
      \<and> g_cal_offset s =
          ADSX_CAL_P1_ACTUAL cfg -
          (ADSX_CAL_P2_ACTUAL cfg - ADSX_CAL_P1_ACTUAL cfg) /
          (ADSX_CAL_P2_MEASURED cfg - ADSX_CAL_P1_MEASURED cfg) * ADSX_CAL_P1_MEASURED cfg"
    if "reachable dev cfg s"
    using reachable_cal_fields [OF that] fit [of power_on] by simp
  have applied: "fst (adsxReadAveragedVolts dev cfg s) =
      ADSX_CAL_P1_ACTUAL cfg -
        (ADSX_CAL_P2_ACTUAL cfg - ADSX_CAL_P1_ACTUAL cfg) /
        (ADSX_CAL_P2_MEASURED cfg - ADSX_CAL_P1_MEASURED cfg) * ADSX_CAL_P1_MEASURED cfg
      + (ADSX_CAL_P2_ACTUAL cfg - ADSX_CAL_P1_ACTUAL cfg) /
        (ADSX_CAL_P2_MEASURED cfg - ADSX_CAL_P1_MEASURED cfg) * fst (volts_raw dev cfg s)"
    if "reachable dev cfg s" and "g_range_code s = ADSX_CAL_RANGE_CODE cfg"
    using correction_applied [OF assms(1) _ that(2), of dev] later [OF that(1)] by simp
  show ?thesis
    unfolding Let_def using after_setup later applied by blast
qed

theorem fit_and_correction_witness:
  "ADSX_ENABLE_TWO_POINT_CAL cal_on
   \<and> ADSX_CAL_P1_MEASURED cal_on \<noteq> ADSX_CAL_P2_MEASURED cal_on
   \<and> reachable quiet_adc cal_on (setup_sketch quiet_adc cal_on power_on)
   \<and> g_range_code (setup_sketch quiet_adc cal_on power_on) = ADSX_CAL_RANGE_CODE cal_on
   \<and> g_cal_enabled (setup_sketch quiet_adc cal_on power_on)
   \<and> g_cal_slope (setup_sketch quiet_adc cal_on power_on) = 200029 / 200062
   \<and> g_cal_offset (setup_sketch quiet_adc cal_on power_on)
        = - 10.0002 + 200029 / 200062 * 10.0017
   \<and> fst (volts_raw quiet_adc cal_on (setup_sketch quiet_adc cal_on power_on)) = - 12.288
   \<and> fst (adsxReadAveragedVolts quiet_adc cal_on (setup_sketch quiet_adc cal_on power_on))
        = - 10.0002 + 200029 / 200062 * 10.0017 + 200029 / 200062 * (- 12.288)"
proof -
  have en: "ADSX_ENABLE_TWO_POINT_CAL cal_on"
    and ne: "ADSX_CAL_P1_MEASURED cal_on \<noteq> ADSX_CAL_P2_MEASURED cal_on"
    by (simp_all add: cal_on_fields)
  have r: "reachable quiet_adc cal_on (setup_sketch quiet_adc cal_on power_on)"
    by (rule reachable.start)
  have rc: "g_range_code (setup_sketch quiet_adc cal_on power_on) = ADSX_CAL_RANGE_CODE cal_on"
    by (simp add: setup_sketch_range cal_on_fields power_on_def range_codes)
  have raw: "fst (volts_raw quiet_adc cal_on (setup_sketch quiet_adc cal_on power_on)) = - 12.288"
    unfolding quiet_volts_raw
    by (rule volts_at_zero_bipolar_3x)
      (simp_all add: cal_on_fields setup_sketch_range vref_setup_sketch power_on_def range_codes)
  show ?thesis
    using fit_and_correction [OF en ne, of quiet_adc power_on "setup_sketch quiet_adc cal_on power_on"]
      en ne r rc raw
    by (simp add: Let_def cal_on_fields)
qed

subsection \<open>Round trip of the fit\<close>

lemma line_through_points:
  fixes a1 a2 m1 m2 :: real
  assumes "m1 \<noteq> m2"
  shows "a1 - (a2 - a1) / (m2 - m1) * m1 + (a2 - a1) / (m2 - m1) * m1 = a1"
    and "a1 - (a2 - a1) / (m2 - m1) * m1 + (a2 - a1) / (m2 - m1) * m2 = a2"
proof -
  show "a1 - (a2 - a1) / (m2 - m1) * m1 + (a2 - a1) / (m2 - m1) * m1 = a1"
    by simp
  from assms have nz: "m2 - m1 \<noteq> 0"
    by simp
  have "a1 - k * m1 + k * m2 = a1 + k * (m2 - m1)" for k :: real
    by (simp add: right_diff_distrib)
  then have "a1 - (a2 - a1) / (m2 - m1) * m1 + (a2 - a1) / (m2 - m1) * m2
      = a1 + (a2 - a1) / (m2 - m1) * (m2 - m1)" .
  also have "\<dots> = a1 + (a2 - a1)"
    using nz by simp
  finally show "a1 - (a2 - a1) / (m2 - m1) * m1 + (a2 - a1) / (m2 - m1) * m2 = a2"
    by simp
qed

text \<open>
  In exact arithmetic the line of the fit passes through both calibration points.
\<close>

lemma fit_round_trip_exact:
  assumes "ADSX_ENABLE_TWO_POINT_CAL cfg"
    and "ADSX_CAL_P1_MEASURED cfg \<noteq> ADSX_CAL_P2_MEASURED cfg"
  shows
    "g_cal_offset (setup_sketch dev cfg st)
       + g_cal_slope (setup_sketch dev cfg st) * ADSX_CAL_P1_MEASURED cfg = ADSX_CAL_P1_ACTUAL cfg
     \<and> g_cal_offset (setup_sketch dev cfg st)
       + g_cal_slope (setup_sketch dev cfg st) * ADSX_CAL_P2_MEASURED cfg = ADSX_CAL_P2_ACTUAL cfg
     \<and> (reachable dev cfg s \<and> g_range_code s = ADSX_CAL_RANGE_CODE cfg
          \<and> fst (volts_raw dev cfg s) = ADSX_CAL_P1_MEASURED cfg
        \<longrightarrow> fst (adsxReadAveragedVolts dev cfg s) = ADSX_CAL_P1_ACTUAL cfg)
     \<and> (reachable dev cfg s \<and> g_range_code s = ADSX_CAL_RANGE_CODE cfg
          \<and> fst (volts_raw dev cfg s) = ADSX_CAL_P2_MEASURED cfg
        \<longrightarrow> fst (adsxReadAveragedVolts dev cfg s) = ADSX_CAL_P2_ACTUAL cfg)"
proof -
  note fit = fit_when_distinct [OF assms]
  note line = line_through_points [OF assms(2), of "ADSX_CAL_P1_ACTUAL cfg" "ADSX_CAL_P2_ACTUAL cfg"]
  have setup1: "g_cal_offset (setup_sketch dev cfg st)
       + g_cal_slope (setup_sketch dev cfg st) * ADSX_CAL_P1_MEASURED cfg = ADSX_CAL_P1_ACTUAL cfg"
    using setup_sketch_cal_fields [of dev cfg st] fit(2,3) [of st] line(1) by simp
  have setup2: "g_cal_offset (setup_sketch dev cfg st)
       + g_cal_slope (setup_sketch dev cfg st) * ADSX_CAL_P2_MEASURED cfg = ADSX_CAL_P2_ACTUAL cfg"
    using setup_sketch_cal_fields [of dev cfg st] fit(2,3) [of st] line(2) by simp
  have read: "fst (adsxReadAveragedVolts dev cfg s) =
      ADSX_CAL_P1_ACTUAL cfg -
        (ADSX_CAL_P2_ACTUAL cfg - ADSX_CAL_P1_ACTUAL cfg) /
        (ADSX_CAL_P2_MEASURED cfg - ADSX_CAL_P1_MEASURED cfg) * ADSX_CAL_P1_MEASURED cfg
      + (ADSX_CAL_P2_ACTUAL cfg - ADSX_CAL_P1_ACTUAL cfg) /
        (ADSX_CAL_P2_MEASURED cfg - ADSX_CAL_P1_MEASURED cfg) * fst (volts_raw dev cfg s)"
    if "reachable dev cfg s" and "g_range_code s = ADSX_CAL_RANGE_CODE cfg"
  proof -
    have "g_cal_enabled s" and "g_cal_slope s = g_cal_slope (two_point_fit cfg power_on)"
      and "g_cal_offset s = g_cal_offset (two_point_fit cfg power_on)"
      using reachable_cal_fields [OF that(1)] fit(1) [of power_on] by simp_all
    then show ?thesis
      using correction_applied [OF assms(1) _ that(2), of dev] fit(2,3) [of power_on] by simp
  qed
  have read1: "fst (adsxReadAveragedVolts dev cfg s) = ADSX_CAL_P1_ACTUAL cfg"
    if "reachable dev cfg s" and "g_range_code s = ADSX_CAL_RANGE_CODE cfg"
      and "fst (volts_raw dev cfg s) = ADSX_CAL_P1_MEASURED cfg"
    using read [OF that(1,2)] line(1) by (simp only: that(3))
  have read2: "fst (adsxReadAveragedVolts dev cfg s) = ADSX_CAL_P2_ACTUAL cfg"
    if "reachable dev cfg s" and "g_range_code s = ADSX_CAL_RANGE_CODE cfg"
      and "fst (volts_raw dev cfg s) = ADSX_CAL_P2_MEASURED cfg"
    using read [OF that(1,2)] line(2) by (simp only: that(3))
  show ?thesis
    using setup1 setup2 read1 read2 by blast
qed

lemma to_binary32_nonzero: "x \<noteq> 0 \<Longrightarrow> to_binary32 x \<noteq> 0"
proof
  assume "x \<noteq> 0" and "to_binary32 x = 0"
  then have "abs x \<le> abs x / 2 ^ 24"
    using to_binary32_error [of x] by simp
  moreover have "abs x / 2 ^ 24 < abs x"
    using \<open>x \<noteq> 0\<close> by simp
  ultimately show False
    by linarith
qed

lemma cal_adjacent_fields:
  "ADSX_CAL_P1_ACTUAL cal_adjacent = 0" "ADSX_CAL_P1_MEASURED cal_adjacent = 1"
  "ADSX_CAL_P2_ACTUAL cal_adjacent = 3" "ADSX_CAL_P2_MEASURED cal_adjacent = 8388609 / 8388608"
  by (simp_all add: cal_adjacent_def cal_on_def as_shipped_def)

lemma cal_close_fields:
  "ADSX_CAL_P1_ACTUAL cal_close = 10" "ADSX_CAL_P1_MEASURED cal_close = 10"
  "ADSX_CAL_P2_ACTUAL cal_close = 10 + 30 / 131072"
  "ADSX_CAL_P2_MEASURED cal_close = 10 + 1 / 131072"
  by (simp_all add: cal_close_def cal_on_def as_shipped_def)

lemmas binary32_eval = to_binary32_def to_binary32_pos.simps round_half_even_def

lemma cal_adjacent_values:
  "cal_slope_binary32 cal_adjacent = 25165824"
  "cal_offset_binary32 cal_adjacent = - 25165824"
  "corrected_binary32 cal_adjacent (ADSX_CAL_P1_MEASURED cal_adjacent) = 0"
  "corrected_binary32 cal_adjacent (ADSX_CAL_P2_MEASURED cal_adjacent) = 4"
proof -
  show s: "cal_slope_binary32 cal_adjacent = 25165824"
    by (simp add: cal_slope_binary32_def cal_adjacent_fields binary32_eval)
  show off: "cal_offset_binary32 cal_adjacent = - 25165824"
    by (simp add: cal_offset_binary32_def s cal_adjacent_fields binary32_eval)
  show "corrected_binary32 cal_adjacent (ADSX_CAL_P1_MEASURED cal_adjacent) = 0"
    by (simp add: corrected_binary32_def s off cal_adjacent_fields binary32_eval)
  show "corrected_binary32 cal_adjacent (ADSX_CAL_P2_MEASURED cal_adjacent) = 4"
    by (simp add: corrected_binary32_def s off cal_adjacent_fields binary32_eval)
qed

lemma cal_close_values:
  "cal_slope_binary32 cal_close = 30"
  "cal_offset_binary32 cal_close = - 290"
  "to_binary32 (ADSX_CAL_P2_ACTUAL cal_close - ADSX_CAL_P1_ACTUAL cal_close) = 30 / 131072"
  "to_binary32 (cal_slope_binary32 cal_close * ADSX_CAL_P1_MEASURED cal_close) = 300"
  "to_binary32 (cal_slope_binary32 cal_close * ADSX_CAL_P2_MEASURED cal_close) = 300 + 1 / 4096"
  "corrected_binary32 cal_close (ADSX_CAL_P1_MEASURED cal_close) = 10"
  "corrected_binary32 cal_close (ADSX_CAL_P2_MEASURED cal_close) = 10 + 1 / 4096"
proof -
  show s: "cal_slope_binary32 cal_close = 30"
    by (simp add: cal_slope_binary32_def cal_close_fields binary32_eval)
  show off: "cal_offset_binary32 cal_close = - 290"
    by (simp add: cal_offset_binary32_def s cal_close_fields binary32_eval)
  show "to_binary32 (ADSX_CAL_P2_ACTUAL cal_close - ADSX_CAL_P1_ACTUAL cal_close) = 30 / 131072"
    by (simp add: cal_close_fields binary32_eval)
  show "to_binary32 (cal_slope_binary32 cal_close * ADSX_CAL_P1_MEASURED cal_close) = 300"
    by (simp add: s cal_close_fields binary32_eval)
  show "to_binary32 (cal_slope_binary32 cal_close * ADSX_CAL_P2_MEASURED cal_close)
      = 300 + 1 / 4096"
    by (simp add: s cal_close_fields binary32_eval)
  show "corrected_binary32 cal_close (ADSX_CAL_P1_MEASURED cal_close) = 10"
    by (simp add: corrected_binary32_def s off cal_close_fields binary32_eval)
  show "corrected_binary32 cal_close (ADSX_CAL_P2_MEASURED cal_close) = 10 + 1 / 4096"
    by (simp add: corrected_binary32_def s off cal_close_fields binary32_eval)
qed

lemma abs_sum_of_two:
  fixes x1 x2 e1 e2 :: real
  assumes "abs x1 \<le> e1" and "abs x2 \<le> e2"
  shows "abs (x1 + x2) \<le> e1 + e2"
  using assms by linarith

lemma abs_sum_of_seven:
  fixes x1 x2 x3 x4 x5 x6 x7 e1 e2 e3 e4 e5 e6 e7 :: real
  assumes "abs x1 \<le> e1" and "abs x2 \<le> e2" and "abs x3 \<le> e3" and "abs x4 \<le> e4"
    and "abs x5 \<le> e5" and "abs x6 \<le> e6" and "abs x7 \<le> e7"
  shows "abs (x1 + x2 + x3 - x4 + x5 + x6 + x7) \<le> e1 + e2 + e3 + e4 + e5 + e6 + e7"
proof -
  have a: "abs (x1 + x2) \<le> e1 + e2"
    using assms(1,2) by linarith
  have b: "abs (x3 - x4) \<le> e3 + e4"
    using assms(3,4) by linarith
  have c: "abs (x5 + x6) \<le> e5 + e6"
    using assms(5,6) by linarith
  have d: "abs ((x1 + x2) + (x3 - x4)) \<le> (e1 + e2) + (e3 + e4)"
    using a b by linarith
  have e: "abs ((x5 + x6) + x7) \<le> (e5 + e6) + e7"
    using c assms(7) by linarith
  have "abs (((x1 + x2) + (x3 - x4)) + ((x5 + x6) + x7)) \<le> ((e1 + e2) + (e3 + e4)) + ((e5 + e6) + e7)"
    using d e by linarith
  moreover have "((x1 + x2) + (x3 - x4)) + ((x5 + x6) + x7) = x1 + x2 + x3 - x4 + x5 + x6 + x7"
    by simp
  moreover have "((e1 + e2) + (e3 + e4)) + ((e5 + e6) + e7) = e1 + e2 + e3 + e4 + e5 + e6 + e7"
    by simp
  ultimately show ?thesis
    by (simp only:)
qed

lemma rounded_quotient_error:
  assumes "d \<noteq> 0"
  shows "abs (to_binary32 (a / d) * d - a) \<le> abs a / 2 ^ 24"
proof -
  have "abs (to_binary32 (a / d) - a / d) \<le> abs (a / d) / 2 ^ 24"
    by (rule to_binary32_error)
  then have "abs (to_binary32 (a / d) - a / d) * abs d \<le> abs (a / d) / 2 ^ 24 * abs d"
    by (rule mult_right_mono) simp
  moreover have "abs (to_binary32 (a / d) - a / d) * abs d = abs (to_binary32 (a / d) * d - a)"
    using assms by (simp add: abs_mult [symmetric] left_diff_distrib)
  moreover have "abs (a / d) / 2 ^ 24 * abs d = abs a / 2 ^ 24"
    using assms by (simp add: abs_divide)
  ultimately show ?thesis
    by simp
qed

lemma scaled_rounding_error:
  "abs (s * x - s * to_binary32 x) \<le> abs (s * x) / 2 ^ 24"
proof -
  have "abs (to_binary32 x - x) \<le> abs x / 2 ^ 24"
    by (rule to_binary32_error)
  then have "abs s * abs (to_binary32 x - x) \<le> abs s * (abs x / 2 ^ 24)"
    by (rule mult_left_mono) simp
  moreover have "abs s * abs (to_binary32 x - x) = abs (s * x - s * to_binary32 x)"
    by (simp add: abs_mult [symmetric] right_diff_distrib abs_minus_commute)
  moreover have "abs s * (abs x / 2 ^ 24) = abs (s * x) / 2 ^ 24"
    by (simp add: abs_mult)
  ultimately show ?thesis
    by simp
qed

text \<open>
  Claim C5, as amended. For calibration points \<open>(A1, M1)\<close> and \<open>(A2, M2)\<close> with
  \<open>M1 \<noteq> M2\<close>, the model fitted and applied in single precision maps \<open>M1\<close> to
  \<open>A1\<close> and \<open>M2\<close> to \<open>A2\<close> up to the rounding errors of its operations, each at
  most \<open>2^-24\<close> of the magnitude of its result: the error at \<open>M1\<close> is at most
  \<open>2^-24\<close> times the sum of the magnitudes of the corrected value and of the offset
  before rounding, and the error at \<open>M2\<close> is at most \<open>2^-24\<close> times the sum of the
  magnitudes of the seven quantities the fit and the correction round. The error is
  small when these magnitudes are, and is not within one fixed tolerance for all points.
\<close>

theorem fit_round_trip_rounded:
  assumes "ADSX_CAL_P1_MEASURED cfg \<noteq> ADSX_CAL_P2_MEASURED cfg"
  shows
    "(let A1 = ADSX_CAL_P1_ACTUAL cfg; M1 = ADSX_CAL_P1_MEASURED cfg;
          A2 = ADSX_CAL_P2_ACTUAL cfg; M2 = ADSX_CAL_P2_MEASURED cfg;
          slope = cal_slope_binary32 cfg; offset = cal_offset_binary32 cfg;
          p1 = to_binary32 (slope * M1); p2 = to_binary32 (slope * M2)
      in abs (corrected_binary32 cfg M1 - A1)
           \<le> (abs (offset + p1) + abs (A1 - p1)) / 2 ^ 24
         \<and> abs (corrected_binary32 cfg M2 - A2)
           \<le> (abs (offset + p2) + abs (A1 - p1) + abs (slope * M2) + abs (slope * M1)
               + abs (slope * (M2 - M1)) + abs (to_binary32 (A2 - A1)) + abs (A2 - A1))
              / 2 ^ 24)"
proof -
  define A1 where "A1 = ADSX_CAL_P1_ACTUAL cfg"
  define M1 where "M1 = ADSX_CAL_P1_MEASURED cfg"
  define A2 where "A2 = ADSX_CAL_P2_ACTUAL cfg"
  define M2 where "M2 = ADSX_CAL_P2_MEASURED cfg"
  define dA where "dA = to_binary32 (A2 - A1)"
  define dM where "dM = to_binary32 (M2 - M1)"
  define s where "s = cal_slope_binary32 cfg"
  define off where "off = cal_offset_binary32 cfg"
  define p1 where "p1 = to_binary32 (s * M1)"
  define p2 where "p2 = to_binary32 (s * M2)"
  define r1 where "r1 = corrected_binary32 cfg M1"
  define r2 where "r2 = corrected_binary32 cfg M2"
  have s: "s = to_binary32 (dA / dM)"
    unfolding s_def dA_def dM_def A1_def A2_def M1_def M2_def by (simp only: cal_slope_binary32_def)
  have off: "off = to_binary32 (A1 - p1)"
    unfolding off_def p1_def s_def A1_def M1_def by (simp only: cal_offset_binary32_def)
  have r1: "r1 = to_binary32 (off + p1)"
    unfolding r1_def off_def p1_def s_def by (simp only: corrected_binary32_def)
  have r2: "r2 = to_binary32 (off + p2)"
    unfolding r2_def off_def p2_def s_def by (simp only: corrected_binary32_def)
  have "M2 - M1 \<noteq> 0"
    using assms unfolding M1_def M2_def by simp
  then have dM: "dM \<noteq> 0"
    unfolding dM_def by (rule to_binary32_nonzero)
  have e1: "abs (r1 - (off + p1)) \<le> abs (off + p1) / 2 ^ 24"
    unfolding r1 by (rule to_binary32_error)
  have e2: "abs (off - (A1 - p1)) \<le> abs (A1 - p1) / 2 ^ 24"
    unfolding off by (rule to_binary32_error)
  have e3: "abs (r2 - (off + p2)) \<le> abs (off + p2) / 2 ^ 24"
    unfolding r2 by (rule to_binary32_error)
  have e4: "abs (p2 - s * M2) \<le> abs (s * M2) / 2 ^ 24"
    unfolding p2_def by (rule to_binary32_error)
  have e5: "abs (p1 - s * M1) \<le> abs (s * M1) / 2 ^ 24"
    unfolding p1_def by (rule to_binary32_error)
  have e6: "abs (s * (M2 - M1) - s * dM) \<le> abs (s * (M2 - M1)) / 2 ^ 24"
    unfolding dM_def by (rule scaled_rounding_error)
  have e7: "abs (s * dM - dA) \<le> abs dA / 2 ^ 24"
    unfolding s using dM by (rule rounded_quotient_error)
  have e8: "abs (dA - (A2 - A1)) \<le> abs (A2 - A1) / 2 ^ 24"
    unfolding dA_def by (rule to_binary32_error)
  have eq1: "(r1 - (off + p1)) + (off - (A1 - p1)) = r1 - A1"
    by simp
  have "abs ((r1 - (off + p1)) + (off - (A1 - p1)))
      \<le> abs (off + p1) / 2 ^ 24 + abs (A1 - p1) / 2 ^ 24"
    using e1 e2 by (rule abs_sum_of_two)
  then have "abs (r1 - A1) \<le> abs (off + p1) / 2 ^ 24 + abs (A1 - p1) / 2 ^ 24"
    by (simp only: eq1)
  then have first: "abs (r1 - A1) \<le> (abs (off + p1) + abs (A1 - p1)) / 2 ^ 24"
    by (simp only: add_divide_distrib)
  have eq2: "(r2 - (off + p2)) + (off - (A1 - p1)) + (p2 - s * M2) - (p1 - s * M1)
      + (s * (M2 - M1) - s * dM) + (s * dM - dA) + (dA - (A2 - A1)) = r2 - A2"
    by (simp add: algebra_simps)
  have "abs ((r2 - (off + p2)) + (off - (A1 - p1)) + (p2 - s * M2) - (p1 - s * M1)
      + (s * (M2 - M1) - s * dM) + (s * dM - dA) + (dA - (A2 - A1)))
      \<le> abs (off + p2) / 2 ^ 24 + abs (A1 - p1) / 2 ^ 24
      + abs (s * M2) / 2 ^ 24 + abs (s * M1) / 2 ^ 24 + abs (s * (M2 - M1)) / 2 ^ 24
      + abs dA / 2 ^ 24 + abs (A2 - A1) / 2 ^ 24"
    using e3 e2 e4 e5 e6 e7 e8 by (rule abs_sum_of_seven)
  then have "abs (r2 - A2) \<le> abs (off + p2) / 2 ^ 24 + abs (A1 - p1) / 2 ^ 24
      + abs (s * M2) / 2 ^ 24 + abs (s * M1) / 2 ^ 24 + abs (s * (M2 - M1)) / 2 ^ 24
      + abs dA / 2 ^ 24 + abs (A2 - A1) / 2 ^ 24"
    by (simp only: eq2)
  then have second: "abs (r2 - A2) \<le> (abs (off + p2) + abs (A1 - p1) + abs (s * M2)
      + abs (s * M1) + abs (s * (M2 - M1)) + abs dA + abs (A2 - A1)) / 2 ^ 24"
    by (simp only: add_divide_distrib)
  show ?thesis
    unfolding Let_def
    using first second
    unfolding r1_def r2_def p1_def p2_def off_def s_def dA_def A1_def A2_def M1_def M2_def
    by (rule conjI)
qed

theorem fit_round_trip_rounded_witness:
  "ADSX_CAL_P1_MEASURED cal_close \<noteq> ADSX_CAL_P2_MEASURED cal_close
   \<and> corrected_binary32 cal_close (ADSX_CAL_P1_MEASURED cal_close) = ADSX_CAL_P1_ACTUAL cal_close
   \<and> abs (corrected_binary32 cal_close (ADSX_CAL_P1_MEASURED cal_close)
          - ADSX_CAL_P1_ACTUAL cal_close)
       \<le> (abs (- 290 + 300) + abs (10 - 300)) / 2 ^ 24
   \<and> abs (corrected_binary32 cal_close (ADSX_CAL_P2_MEASURED cal_close)
          - ADSX_CAL_P2_ACTUAL cal_close) = 1 / 65536
   \<and> abs (corrected_binary32 cal_close (ADSX_CAL_P2_MEASURED cal_close)
          - ADSX_CAL_P2_ACTUAL cal_close)
       \<le> (abs (- 290 + (300 + 1 / 4096)) + abs (10 - 300) + abs (30 * (10 + 1 / 131072))
           + abs (30 * 10) + abs (30 * (1 / 131072)) + abs (30 / 131072) + abs (30 / 131072))
          / 2 ^ 24"
proof -
  have ne: "ADSX_CAL_P1_MEASURED cal_close \<noteq> ADSX_CAL_P2_MEASURED cal_close"
    by (simp add: cal_close_fields)
  have r1: "corrected_binary32 cal_close (ADSX_CAL_P1_MEASURED cal_close)
      = ADSX_CAL_P1_ACTUAL cal_close"
    by (simp only: cal_close_values) (simp add: cal_close_fields)
  have r2: "abs (corrected_binary32 cal_close (ADSX_CAL_P2_MEASURED cal_close)
      - ADSX_CAL_P2_ACTUAL cal_close) = 1 / 65536"
    by (simp only: cal_close_values) (simp add: cal_close_fields)
  note bounds = fit_round_trip_rounded [OF ne, unfolded Let_def]
  from bounds have b1: "abs (corrected_binary32 cal_close (ADSX_CAL_P1_MEASURED cal_close)
          - ADSX_CAL_P1_ACTUAL cal_close)
       \<le> (abs (- 290 + 300) + abs (10 - 300)) / 2 ^ 24"
    by (simp add: cal_close_fields corrected_binary32_def cal_close_values(1,2) binary32_eval)
  from bounds have b2: "abs (corrected_binary32 cal_close (ADSX_CAL_P2_MEASURED cal_close)
          - ADSX_CAL_P2_ACTUAL cal_close)
       \<le> (abs (- 290 + (300 + 1 / 4096)) + abs (10 - 300) + abs (30 * (10 + 1 / 131072))
           + abs (30 * 10) + abs (30 * (1 / 131072)) + abs (30 / 131072) + abs (30 / 131072))
          / 2 ^ 24"
    by (simp add: cal_close_fields corrected_binary32_def cal_close_values(1,2) binary32_eval)
  show ?thesis
    using ne r1 b1 r2 b2 by blast
qed

text \<open>
  Claim C5 as the specification states it (the round trip holds within a floating-point
  tolerance such as 1e-5 for all points with \<open>M1 \<noteq> M2\<close>) fails in single precision:
  for measured values 10 and \<open>10 + 2^-17\<close> with actual values 10 and \<open>10 + 30 * 2^-17\<close>
  the model maps \<open>M2\<close> to \<open>10 + 2^-12\<close>, which misses \<open>A2\<close> by \<open>2^-16\<close>, more than
  1e-5; for the adjacent measured values 1 and \<open>1 + 2^-23\<close> with actual values 0 and 3
  it maps \<open>M2\<close> to 4.
\<close>

theorem fit_round_trip_misses_tolerance:
  "ADSX_CAL_P1_MEASURED cal_close \<noteq> ADSX_CAL_P2_MEASURED cal_close
   \<and> corrected_binary32 cal_close (ADSX_CAL_P2_MEASURED cal_close) = 10 + 1 / 4096
   \<and> ADSX_CAL_P2_ACTUAL cal_close = 10 + 30 / 131072
   \<and> 1 / 100000 < abs (corrected_binary32 cal_close (ADSX_CAL_P2_MEASURED cal_close)
                        - ADSX_CAL_P2_ACTUAL cal_close)
   \<and> ADSX_CAL_P1_MEASURED cal_adjacent \<noteq> ADSX_CAL_P2_MEASURED cal_adjacent
   \<and> corrected_binary32 cal_adjacent (ADSX_CAL_P2_MEASURED cal_adjacent) = 4
   \<and> ADSX_CAL_P2_ACTUAL cal_adjacent = 3
   \<and> 1 / 100000 < abs (corrected_binary32 cal_adjacent (ADSX_CAL_P2_MEASURED cal_adjacent)
                        - ADSX_CAL_P2_ACTUAL cal_adjacent)"
  by (simp only: cal_close_values cal_adjacent_values)
    (simp add: cal_close_fields cal_adjacent_fields)

subsection \<open>Calibration and the active range\<close>

lemma mismatch_warned_by_fit:
  assumes "ADSX_ENABLE_TWO_POINT_CAL cfg"
    and "ADSX_CAL_P1_MEASURED cfg \<noteq> ADSX_CAL_P2_MEASURED cfg"
  shows "Warning_range_mismatch \<in> set (serial_out (two_point_fit cfg st2))
    \<longleftrightarrow> Warning_range_mismatch \<in> set (serial_out st2)
        \<or> g_range_code st2 \<noteq> ADSX_CAL_RANGE_CODE cfg"
  using assms by (auto simp: two_point_fit_def Let_def print_def)

lemma setup_sketch_warning:
  assumes "ADSX_ENABLE_TWO_POINT_CAL cfg"
    and "ADSX_CAL_P1_MEASURED cfg \<noteq> ADSX_CAL_P2_MEASURED cfg"
  shows "Warning_range_mismatch \<in> set (serial_out (setup_sketch dev cfg st))
    \<longleftrightarrow> Warning_range_mismatch \<in> set (serial_out st)
        \<or> g_range_code st AND 0x000F \<noteq> ADSX_CAL_RANGE_CODE cfg"
proof -
  define st1 where "st1 = adsxSetVrefVolts 4.096 st"
  define st2 where "st2 = adsxSetRange dev (g_range_code st1) True st1"
  have s: "setup_sketch dev cfg st = print (Configured (ADSX_BITS cfg)) (two_point_fit cfg st2)"
    by (simp add: setup_sketch_def Let_def st1_def st2_def)
  have "g_range_code st2 = g_range_code st AND 0x000F" and "serial_out st2 = serial_out st"
    unfolding st2_def st1_def by (subst adsxSetRange_state, simp add: adsxSetVrefVolts_def)+
  then show ?thesis
    using mismatch_warned_by_fit [OF assms, of st2] by (simp add: s print_def)
qed

lemma cal_on_other_range_fields:
  "ADSX_ENABLE_TWO_POINT_CAL cal_on_other_range" "ADSX_BITS cal_on_other_range = 16"
  "ADSX_CAL_RANGE_CODE cal_on_other_range = ADSX_RANGE_UNIPOLAR_1P25X"
  "ADSX_CAL_P1_ACTUAL cal_on_other_range = - 10.0002"
  "ADSX_CAL_P1_MEASURED cal_on_other_range = - 10.0017"
  "ADSX_CAL_P2_ACTUAL cal_on_other_range = 10.0027"
  "ADSX_CAL_P2_MEASURED cal_on_other_range = 10.0045"
  by (simp_all add: cal_on_other_range_def cal_on_def as_shipped_def)

lemma other_range_after_setup:
  "g_cal_enabled (setup_sketch quiet_adc cal_on_other_range power_on)"
  "g_range_code (setup_sketch quiet_adc cal_on_other_range power_on) = ADSX_RANGE_BIPOLAR_3X"
  "g_cal_slope (setup_sketch quiet_adc cal_on_other_range power_on) = 200029 / 200062"
  "g_cal_offset (setup_sketch quiet_adc cal_on_other_range power_on)
     = - 10.0002 + 200029 / 200062 * 10.0017"
  "fst (volts_raw quiet_adc cal_on_other_range (setup_sketch quiet_adc cal_on_other_range power_on))
     = - 12.288"
proof -
  have ne: "ADSX_CAL_P1_MEASURED cal_on_other_range \<noteq> ADSX_CAL_P2_MEASURED cal_on_other_range"
    by (simp add: cal_on_other_range_fields)
  note fit = fit_when_distinct [OF cal_on_other_range_fields(1) ne, of power_on]
  note fields = setup_sketch_cal_fields [of quiet_adc cal_on_other_range power_on]
  show "g_cal_enabled (setup_sketch quiet_adc cal_on_other_range power_on)"
    using fields fit(1) by simp
  show rc: "g_range_code (setup_sketch quiet_adc cal_on_other_range power_on) = ADSX_RANGE_BIPOLAR_3X"
    by (simp add: setup_sketch_range power_on_def range_codes)
  show "g_cal_slope (setup_sketch quiet_adc cal_on_other_range power_on) = 200029 / 200062"
    using fields fit(2) by (simp add: cal_on_other_range_fields)
  show "g_cal_offset (setup_sketch quiet_adc cal_on_other_range power_on)
     = - 10.0002 + 200029 / 200062 * 10.0017"
    using fields fit(3) by (simp add: cal_on_other_range_fields)
  show "fst (volts_raw quiet_adc cal_on_other_range
      (setup_sketch quiet_adc cal_on_other_range power_on)) = - 12.288"
    unfolding quiet_volts_raw
    by (rule volts_at_zero_bipolar_3x) (simp_all add: cal_on_other_range_fields rc vref_setup_sketch)
qed

text \<open>
  Claim C3, as amended. The correction is gated by the range: when the active range
  differs from the range the calibration is tied to, the averaged read returns the
  converted voltage without the correction, also when the model is enabled; the
  correction is applied when the calibration is compiled in, the model is enabled and
  the two ranges are equal. A mismatch at start-up leaves the model enabled and prints
  the warning line.
\<close>

theorem correction_gated_by_range:
  "(g_range_code s \<noteq> ADSX_CAL_RANGE_CODE cfg \<longrightarrow>
      adsxReadAveragedVolts dev cfg s = volts_raw dev cfg s)
   \<and> (ADSX_ENABLE_TWO_POINT_CAL cfg \<and> g_cal_enabled s
        \<and> g_range_code s = ADSX_CAL_RANGE_CODE cfg \<longrightarrow>
      fst (adsxReadAveragedVolts dev cfg s) =
        g_cal_offset s + g_cal_slope s * fst (volts_raw dev cfg s))
   \<and> (ADSX_ENABLE_TWO_POINT_CAL cfg
        \<and> ADSX_CAL_P1_MEASURED cfg \<noteq> ADSX_CAL_P2_MEASURED cfg
        \<and> g_range_code st AND 0x000F \<noteq> ADSX_CAL_RANGE_CODE cfg \<longrightarrow>
      g_cal_enabled (setup_sketch dev cfg st)
      \<and> Warning_range_mismatch \<in> set (serial_out (setup_sketch dev cfg st)))"
proof (intro conjI impI)
  assume "g_range_code s \<noteq> ADSX_CAL_RANGE_CODE cfg"
  then show "adsxReadAveragedVolts dev cfg s = volts_raw dev cfg s"
    by (simp add: correction_skipped)
next
  assume "ADSX_ENABLE_TWO_POINT_CAL cfg \<and> g_cal_enabled s
    \<and> g_range_code s = ADSX_CAL_RANGE_CODE cfg"
  then show "fst (adsxReadAveragedVolts dev cfg s) =
      g_cal_offset s + g_cal_slope s * fst (volts_raw dev cfg s)"
    by (simp add: correction_applied)
next
  assume a: "ADSX_ENABLE_TWO_POINT_CAL cfg
    \<and> ADSX_CAL_P1_MEASURED cfg \<noteq> ADSX_CAL_P2_MEASURED cfg
    \<and> g_range_code st AND 0x000F \<noteq> ADSX_CAL_RANGE_CODE cfg"
  then show "g_cal_enabled (setup_sketch dev cfg st)"
    using setup_sketch_cal_fields [of dev cfg st] fit_when_distinct(1) [of cfg st] by simp
  from a show "Warning_range_mismatch \<in> set (serial_out (setup_sketch dev cfg st))"
    by (simp add: setup_sketch_warning)
qed

theorem correction_gated_by_range_witness:
  "ADSX_ENABLE_TWO_POINT_CAL cal_on_other_range
   \<and> ADSX_CAL_P1_MEASURED cal_on_other_range \<noteq> ADSX_CAL_P2_MEASURED cal_on_other_range
   \<and> g_range_code power_on AND 0x000F \<noteq> ADSX_CAL_RANGE_CODE cal_on_other_range
   \<and> g_range_code (setup_sketch quiet_adc cal_on_other_range power_on)
        \<noteq> ADSX_CAL_RANGE_CODE cal_on_other_range
   \<and> g_cal_enabled (setup_sketch quiet_adc cal_on_other_range power_on)
   \<and> Warning_range_mismatch \<in> set (serial_out (setup_sketch quiet_adc cal_on_other_range power_on))
   \<and> adsxReadAveragedVolts quiet_adc cal_on_other_range
        (setup_sketch quiet_adc cal_on_other_range power_on)
      = volts_raw quiet_adc cal_on_other_range (setup_sketch quiet_adc cal_on_other_range power_on)
   \<and> ADSX_ENABLE_TWO_POINT_CAL cal_on
   \<and> g_cal_enabled (setup_sketch quiet_adc cal_on power_on)
   \<and> g_range_code (setup_sketch quiet_adc cal_on power_on) = ADSX_CAL_RANGE_CODE cal_on
   \<and> fst (adsxReadAveragedVolts quiet_adc cal_on (setup_sketch quiet_adc cal_on power_on))
      = g_cal_offset (setup_sketch quiet_adc cal_on power_on)
        + g_cal_slope (setup_sketch quiet_adc cal_on power_on)
          * fst (volts_raw quiet_adc cal_on (setup_sketch quiet_adc cal_on power_on))"
proof -
  have h1: "ADSX_ENABLE_TWO_POINT_CAL cal_on_other_range
      \<and> ADSX_CAL_P1_MEASURED cal_on_other_range \<noteq> ADSX_CAL_P2_MEASURED cal_on_other_range
      \<and> g_range_code power_on AND 0x000F \<noteq> ADSX_CAL_RANGE_CODE cal_on_other_range"
    by (simp add: cal_on_other_range_fields power_on_def range_codes)
  have h2: "g_range_code (setup_sketch quiet_adc cal_on_other_range power_on)
      \<noteq> ADSX_CAL_RANGE_CODE cal_on_other_range"
    by (simp add: other_range_after_setup cal_on_other_range_fields range_codes)
  have h3: "ADSX_ENABLE_TWO_POINT_CAL cal_on
      \<and> g_cal_enabled (setup_sketch quiet_adc cal_on power_on)
      \<and> g_range_code (setup_sketch quiet_adc cal_on power_on) = ADSX_CAL_RANGE_CODE cal_on"
    using setup_sketch_cal_fields [of quiet_adc cal_on power_on]
      fit_when_distinct(1) [of cal_on power_on]
    by (simp add: cal_on_fields setup_sketch_range power_on_def range_codes)
  show ?thesis
    using h1 h2 h3
      correction_gated_by_range [of "setup_sketch quiet_adc cal_on_other_range power_on"
        cal_on_other_range quiet_adc power_on]
      correction_gated_by_range [of "setup_sketch quiet_adc cal_on power_on" cal_on quiet_adc]
    by blast
qed

text \<open>
  Claim C3 as the specification states it (the correction is still applied when the
  ranges differ) fails: with the calibration switched on for the unipolar 1.25 range and
  the sketch on its default bipolar 3 range, the model is enabled, the ranges differ, and
  a read of code 0 returns the raw -12.288 V rather than the corrected value.
\<close>

theorem mismatched_range_skips_correction:
  "ADSX_ENABLE_TWO_POINT_CAL cal_on_other_range
   \<and> g_cal_enabled (setup_sketch quiet_adc cal_on_other_range power_on)
   \<and> g_range_code (setup_sketch quiet_adc cal_on_other_range power_on)
        \<noteq> ADSX_CAL_RANGE_CODE cal_on_other_range
   \<and> fst (adsxReadAveragedVolts quiet_adc cal_on_other_range
        (setup_sketch quiet_adc cal_on_other_range power_on)) = - 12.288
   \<and> g_cal_offset (setup_sketch quiet_adc cal_on_other_range power_on)
        + g_cal_slope (setup_sketch quiet_adc cal_on_other_range power_on)
          * fst (volts_raw quiet_adc cal_on_other_range
              (setup_sketch quiet_adc cal_on_other_range power_on))
      = - 10.0002 + 200029 / 200062 * 10.0017 + 200029 / 200062 * (- 12.288)
   \<and> fst (adsxReadAveragedVolts quiet_adc cal_on_other_range
        (setup_sketch quiet_adc cal_on_other_range power_on))
      \<noteq> g_cal_offset (setup_sketch quiet_adc cal_on_other_range power_on)
        + g_cal_slope (setup_sketch quiet_adc cal_on_other_range power_on)
          * fst (volts_raw quiet_adc cal_on_other_range
              (setup_sketch quiet_adc cal_on_other_range power_on))"
proof -
  have ne: "g_range_code (setup_sketch quiet_adc cal_on_other_range power_on)
      \<noteq> ADSX_CAL_RANGE_CODE cal_on_other_range"
    by (simp add: other_range_after_setup cal_on_other_range_fields range_codes)
  then have "adsxReadAveragedVolts quiet_adc cal_on_other_range
        (setup_sketch quiet_adc cal_on_other_range power_on)
      = volts_raw quiet_adc cal_on_other_range (setup_sketch quiet_adc cal_on_other_range power_on)"
    by (simp add: correction_skipped)
  then have "fst (adsxReadAveragedVolts quiet_adc cal_on_other_range
        (setup_sketch quiet_adc cal_on_other_range power_on)) = - 12.288"
    by (simp add: other_range_after_setup)
  then show ?thesis
    using ne by (simp add: other_range_after_setup cal_on_other_range_fields)
qed

subsection \<open>Identical calibration points\<close>

lemma setup_sketch_says_identical:
  assumes "ADSX_ENABLE_TWO_POINT_CAL cfg"
    and "ADSX_CAL_P1_MEASURED cfg = ADSX_CAL_P2_MEASURED cfg"
  shows "Cal_disabled_identical \<in> set (serial_out (setup_sketch dev cfg st))"
  using assms by (simp add: setup_sketch_def two_point_fit_def Let_def print_def)

lemma cal_on_identical_fields:
  "ADSX_ENABLE_TWO_POINT_CAL cal_on_identical" "ADSX_BITS cal_on_identical = 16"
  "ADSX_CAL_RANGE_CODE cal_on_identical = ADSX_RANGE_BIPOLAR_3X"
  "ADSX_CAL_P1_MEASURED cal_on_identical = - 10.0017"
  "ADSX_CAL_P2_MEASURED cal_on_identical = - 10.0017"
  by (simp_all add: cal_on_identical_def cal_on_def as_shipped_def)

text \<open>
  Claim C6. When the two measured calibration values are equal, start-up leaves the
  calibration model disabled (and says so on the serial line when the calibration is
  compiled in), and it stays disabled; with a disabled model the averaged read returns
  the output of the transfer function as it is, without correction.
\<close>

theorem identical_points_disable:
  assumes "ADSX_CAL_P1_MEASURED cfg = ADSX_CAL_P2_MEASURED cfg"
  shows "\<not> g_cal_enabled (setup_sketch dev cfg st)
    \<and> (reachable dev cfg s \<longrightarrow> \<not> g_cal_enabled s)
    \<and> (ADSX_ENABLE_TWO_POINT_CAL cfg \<longrightarrow>
          Cal_disabled_identical \<in> set (serial_out (setup_sketch dev cfg st)))
    \<and> (\<not> g_cal_enabled s \<longrightarrow> adsxReadAveragedVolts dev cfg s = volts_raw dev cfg s)"
proof (intro conjI impI)
  show "\<not> g_cal_enabled (setup_sketch dev cfg st)"
    using setup_sketch_cal_fields [of dev cfg st] fit_when_identical [OF assms, of st] by simp
  show "\<not> g_cal_enabled s" if "reachable dev cfg s"
    using reachable_cal_fields [OF that] fit_when_identical [OF assms, of power_on] by simp
  show "Cal_disabled_identical \<in> set (serial_out (setup_sketch dev cfg st))"
    if "ADSX_ENABLE_TWO_POINT_CAL cfg"
    using that assms by (rule setup_sketch_says_identical)
  show "adsxReadAveragedVolts dev cfg s = volts_raw dev cfg s" if "\<not> g_cal_enabled s"
    using that by (simp add: correction_skipped)
qed

theorem identical_points_disable_witness:
  "ADSX_CAL_P1_MEASURED cal_on_identical = ADSX_CAL_P2_MEASURED cal_on_identical
   \<and> ADSX_ENABLE_TWO_POINT_CAL cal_on_identical
   \<and> reachable quiet_adc cal_on_identical (setup_sketch quiet_adc cal_on_identical power_on)
   \<and> \<not> g_cal_enabled (setup_sketch quiet_adc cal_on_identical power_on)
   \<and> Cal_disabled_identical \<in> set (serial_out (setup_sketch quiet_adc cal_on_identical power_on))
   \<and> g_range_code (setup_sketch quiet_adc cal_on_identical power_on)
        = ADSX_CAL_RANGE_CODE cal_on_identical
   \<and> fst (adsxReadAveragedVolts quiet_adc cal_on_identical
        (setup_sketch quiet_adc cal_on_identical power_on)) = - 12.288"
proof -
  have same: "ADSX_CAL_P1_MEASURED cal_on_identical = ADSX_CAL_P2_MEASURED cal_on_identical"
    by (simp add: cal_on_identical_fields)
  have r: "reachable quiet_adc cal_on_identical (setup_sketch quiet_adc cal_on_identical power_on)"
    by (rule reachable.start)
  have rc: "g_range_code (setup_sketch quiet_adc cal_on_identical power_on) = ADSX_RANGE_BIPOLAR_3X"
    by (simp add: setup_sketch_range power_on_def range_codes)
  have raw: "fst (volts_raw quiet_adc cal_on_identical
      (setup_sketch quiet_adc cal_on_identical power_on)) = - 12.288"
    unfolding quiet_volts_raw
    by (rule volts_at_zero_bipolar_3x) (simp_all add: cal_on_identical_fields rc vref_setup_sketch)
  note inst = identical_points_disable [OF same, of quiet_adc power_on
      "setup_sketch quiet_adc cal_on_identical power_on"]
  from inst have off: "\<not> g_cal_enabled (setup_sketch quiet_adc cal_on_identical power_on)"
    by blast
  with inst have "adsxReadAveragedVolts quiet_adc cal_on_identical
        (setup_sketch quiet_adc cal_on_identical power_on)
      = volts_raw quiet_adc cal_on_identical (setup_sketch quiet_adc cal_on_identical power_on)"
    by blast
  then have "fst (adsxReadAveragedVolts quiet_adc cal_on_identical
        (setup_sketch quiet_adc cal_on_identical power_on)) = - 12.288"
    using raw by simp
  then show ?thesis
    using same r rc off inst by (simp add: cal_on_identical_fields)
qed

subsection \<open>Averaging in the code domain\<close>

lemma adsxReadCodeNbits_value:
  "fst (adsxReadCodeNbits dev cfg st) =
     (case dev (Suc (length (spi_sent st))) of (r0, r1, r2, r3) \<Rightarrow>
        drop_bit (ADSX_CODE_SHIFT cfg)
          (push_bit 24 (ucast r0) OR push_bit 16 (ucast r1) OR push_bit 8 (ucast r2) OR ucast r3)
        AND ADSX_CODE_MASK cfg)"
  by (simp add: adsxReadCodeNbits_def adsxReadCodeRaw32_def frameNOP_def xfer32_def Let_def
      split: prod.splits)

lemma samples_Suc:
  "samples dev cfg (Suc k) st =
     fst (adsxReadCodeNbits dev cfg st)
       # samples dev cfg k (st\<lparr>spi_sent := spi_sent st @ [(0, 0, 0, 0), (0, 0, 0, 0)]\<rparr>)"
proof -
  obtain code st1 where rd: "adsxReadCodeNbits dev cfg st = (code, st1)"
    by (cases "adsxReadCodeNbits dev cfg st")
  then have "st1 = st\<lparr>spi_sent := spi_sent st @ [(0, 0, 0, 0), (0, 0, 0, 0)]\<rparr>"
    using adsxReadCodeNbits_state [of dev cfg st] by simp
  then show ?thesis
    using rd by simp
qed

lemma midscale_samples: "samples midscale_adc as_shipped k st = replicate k 32768"
proof (induction k arbitrary: st)
  case 0
  show ?case by simp
next
  case (Suc k)
  have "fst (adsxReadCodeNbits midscale_adc as_shipped st) = 32768"
    by (simp add: adsxReadCodeNbits_value midscale_adc_def as_shipped_def ADSX_CODE_SHIFT_def
        ADSX_CODE_MASK_def)
  then show ?case
    by (simp only: samples_Suc Suc.IH replicate_Suc)
qed

lemma setup_sketch_frames: "length (spi_sent (setup_sketch dev cfg st)) = length (spi_sent st) + 3"
  by (simp add: setup_sketch_def adsxSetRange_def writeRegHWord_def xfer32_state frameNOP_state
      two_point_fit_def print_def adsxSetVrefVolts_def Let_def)

lemma one_count_samples:
  assumes "length (spi_sent st) = 3"
  shows "samples one_count_adc as_shipped 12 st = [1, 0, 0, 0, 0, 0, 0, 0, 0, 0, 0, 0]"
proof -
  have twelve: "(12 :: nat) = Suc (Suc (Suc (Suc (Suc (Suc (Suc (Suc (Suc (Suc (Suc (Suc 0)))))))))))"
    by simp
  have code: "fst (adsxReadCodeNbits one_count_adc as_shipped s) =
      (if length (spi_sent s) = 3 then 1 else 0)" for s
    by (simp add: adsxReadCodeNbits_value one_count_adc_def as_shipped_def ADSX_CODE_SHIFT_def
        ADSX_CODE_MASK_def)
  show ?thesis
    unfolding twelve using assms by (simp add: samples_Suc code del: samples.simps(2))
qed

lemma spec_codeToVoltage_in_range:
  assumes "0 \<le> x" and "x \<le> 2 ^ ADSX_BITS cfg - 1"
  shows "spec_codeToVoltage cfg st x =
    (if snd (adsxRangeMultiplier (g_range_code st))
     then - (fst (adsxRangeMultiplier (g_range_code st)) * g_vref_volts st)
     else 0) +
    x *
      ((fst (adsxRangeMultiplier (g_range_code st)) * g_vref_volts st -
        (if snd (adsxRangeMultiplier (g_range_code st))
         then - (fst (adsxRangeMultiplier (g_range_code st)) * g_vref_volts st)
         else 0)) / 2 ^ ADSX_BITS cfg)"
proof -
  from assms have "min (max x 0) (2 ^ ADSX_BITS cfg - 1) = x"
    by simp
  then show ?thesis
    by (simp add: spec_codeToVoltage_def Let_def split_beta)
qed

lemma adsxCodeToVolts_is_spec:
  assumes "compiles cfg" and "unat w \<le> 2 ^ ADSX_BITS cfg - 1"
  shows "adsxCodeToVolts cfg st w = spec_codeToVoltage cfg st (real (unat w))"
proof -
  have "real (unat w) \<le> real (2 ^ ADSX_BITS cfg - 1)"
    using assms(2) by (simp only: of_nat_le_iff)
  also have "real (2 ^ ADSX_BITS cfg - 1) = 2 ^ ADSX_BITS cfg - 1"
    by (simp add: of_nat_diff)
  finally have "real (unat w) \<le> 2 ^ ADSX_BITS cfg - 1" .
  moreover have "0 \<le> real (unat w)"
    by (simp only: of_nat_0_le_iff)
  ultimately have "spec_codeToVoltage cfg st (real (unat w)) =
    (if snd (adsxRangeMultiplier (g_range_code st))
     then - (fst (adsxRangeMultiplier (g_range_code st)) * g_vref_volts st)
     else 0) +
    real (unat w) *
      ((fst (adsxRangeMultiplier (g_range_code st)) * g_vref_volts st -
        (if snd (adsxRangeMultiplier (g_range_code st))
         then - (fst (adsxRangeMultiplier (g_range_code st)) * g_vref_volts st)
         else 0)) / 2 ^ ADSX_BITS cfg)"
    by (rule spec_codeToVoltage_in_range [rotated])
  then show ?thesis
    using adsxCodeToVolts_in_range [OF assms, of st] by simp
qed

lemma setup_sketch_num_averages:
  "g_num_averages (setup_sketch dev cfg st) = g_num_averages st"
  by (simp add: setup_sketch_def adsxSetRange_def writeRegHWord_def xfer32_state frameNOP_state
      two_point_fit_def print_def adsxSetVrefVolts_def Let_def)

lemma started_facts:
  "unat (averaging_count (setup_sketch dev cfg power_on)) = 12"
  "g_range_code (setup_sketch dev cfg power_on) = ADSX_RANGE_BIPOLAR_3X"
  "g_vref_volts (setup_sketch dev cfg power_on) = 4.096"
  "length (spi_sent (setup_sketch dev cfg power_on)) = 3"
  by (simp_all add: averaging_count_def setup_sketch_num_averages setup_sketch_range
      vref_setup_sketch setup_sketch_frames power_on_def range_codes)

lemma as_shipped_fields:
  "compiles as_shipped" "ADSX_BITS as_shipped = 16" "\<not> ADSX_ENABLE_TWO_POINT_CAL as_shipped"
  by (simp_all add: compiles_def as_shipped_def)

lemma spec_volts_bipolar_3x:
  assumes "ADSX_BITS cfg = 16" and "g_range_code st = ADSX_RANGE_BIPOLAR_3X"
    and "g_vref_volts st = 4.096" and "0 \<le> x" and "x \<le> 65535"
  shows "spec_codeToVoltage cfg st x = - 12.288 + x * (24.576 / 65536)"
proof -
  from assms(4,5) have "min (max x 0) 65535 = x"
    by simp
  then have "spec_codeToVoltage cfg st x =
      - (3 * g_vref_volts st) + x * ((3 * g_vref_volts st - - (3 * g_vref_volts st)) / 65536)"
    using assms(1,2)
    by (simp add: spec_codeToVoltage_def adsxRangeMultiplier_def range_codes Let_def)
  then show ?thesis
    unfolding assms(3) by simp
qed

lemma spec_codeToVoltage_injective:
  assumes "0 < g_vref_volts st"
    and "0 \<le> x" and "x \<le> 2 ^ ADSX_BITS cfg - 1"
    and "0 \<le> y" and "y \<le> 2 ^ ADSX_BITS cfg - 1"
  shows "spec_codeToVoltage cfg st x = spec_codeToVoltage cfg st y \<longleftrightarrow> x = y"
proof -
  define PFS where "PFS = fst (adsxRangeMultiplier (g_range_code st)) * g_vref_volts st"
  define NFS where "NFS = (if snd (adsxRangeMultiplier (g_range_code st)) then - PFS else 0)"
  define LSB where "LSB = (PFS - NFS) / 2 ^ ADSX_BITS cfg"
  have "0 < PFS"
    unfolding PFS_def using assms(1) multiplier_positive by simp
  then have "0 < PFS - NFS"
    unfolding NFS_def by simp
  then have "LSB \<noteq> 0"
    unfolding LSB_def by simp
  moreover have "spec_codeToVoltage cfg st x = NFS + x * LSB"
    unfolding LSB_def NFS_def PFS_def using assms(2,3) by (rule spec_codeToVoltage_in_range)
  moreover have "spec_codeToVoltage cfg st y = NFS + y * LSB"
    unfolding LSB_def NFS_def PFS_def using assms(4,5) by (rule spec_codeToVoltage_in_range)
  ultimately show ?thesis
    by simp
qed

lemma exact_quotient_iff_dvd:
  assumes "0 < n"
  shows "real (a div n) = real a / real n \<longleftrightarrow> n dvd a"
proof
  assume "n dvd a"
  then show "real (a div n) = real a / real n"
    by (rule real_of_nat_div)
next
  assume "real (a div n) = real a / real n"
  then have "real (a div n) * real n = real a"
    using assms by (simp add: field_simps)
  then have "real (a div n * n) = real a"
    by simp
  then have "a div n * n = a"
    by (simp only: of_nat_eq_iff)
  then have "a = n * (a div n)"
    by (simp add: mult.commute)
  then show "n dvd a"
    by (rule dvdI)
qed

lemma near_top_later:
  "4 \<le> length (spi_sent st) \<Longrightarrow> samples near_top_adc as_shipped k st = replicate k 65532"
proof (induction k arbitrary: st)
  case 0
  show ?case by simp
next
  case (Suc k)
  have "fst (adsxReadCodeNbits near_top_adc as_shipped st) = 65532"
    using Suc.prems
    by (simp add: adsxReadCodeNbits_value near_top_adc_def as_shipped_def ADSX_CODE_SHIFT_def
        ADSX_CODE_MASK_def)
  moreover have "samples near_top_adc as_shipped k
      (st\<lparr>spi_sent := spi_sent st @ [(0, 0, 0, 0), (0, 0, 0, 0)]\<rparr>) = replicate k 65532"
    using Suc.prems by (intro Suc.IH) simp
  ultimately show ?case
    by (simp only: samples_Suc replicate_Suc)
qed

lemma near_top_samples:
  assumes "length (spi_sent st) = 3"
  shows "samples near_top_adc as_shipped (Suc k) st = 65531 # replicate k 65532"
proof -
  have "fst (adsxReadCodeNbits near_top_adc as_shipped st) = 65531"
    using assms
    by (simp add: adsxReadCodeNbits_value near_top_adc_def as_shipped_def ADSX_CODE_SHIFT_def
        ADSX_CODE_MASK_def)
  moreover have "samples near_top_adc as_shipped k
      (st\<lparr>spi_sent := spi_sent st @ [(0, 0, 0, 0), (0, 0, 0, 0)]\<rparr>) = replicate k 65532"
    using assms by (intro near_top_later) simp
  ultimately show ?thesis
    by (simp only: samples_Suc)
qed

lemma rounding_raises_the_code:
  "float_to_u32 (to_binary32 (to_binary32 (real (16841723 :: nat)) / to_binary32 (real (257 :: nat))))
     = 65532"
  by (simp add: float_to_u32_def to_binary32_def to_binary32_pos.simps round_half_even_def)

text \<open>
  Claim C4, as amended. For the \<open>n\<close> codes of one averaged read, the sketch adds the
  codes in an unsigned 32-bit accumulator, converts the accumulator and \<open>n\<close> to single
  precision, divides in single precision, converts the quotient to an unsigned integer,
  which drops its fraction, and passes that one averaged code (not \<open>n\<close> voltages) to
  \<open>adsxCodeToVolts\<close>. While the accumulated sum is below \<open>2^24\<close> the code passed is the
  integer quotient of the sum by \<open>n\<close>: the uncalibrated result is the transfer function at
  the average with its fraction dropped, and, the reference voltage being positive, it
  is the transfer function at the exact average if and only if \<open>n\<close> divides the sum. From
  \<open>2^24\<close> on, the rounding of the sum and of the quotient can give a greater code.
\<close>

theorem averaged_read_drops_fraction:
  assumes "compiles cfg"
  shows
    "(let n = unat (averaging_count st);
          codes = samples dev cfg n st;
          total = sum_list (map unat codes) mod 2 ^ 32
      in 0 < n \<and> length codes = n
         \<and> fst (volts_raw dev cfg st) =
             adsxCodeToVolts cfg st
               (float_to_u32 (to_binary32 (to_binary32 (real total) / to_binary32 (real n))))
         \<and> (total < 2 ^ 24 \<longrightarrow>
               fst (volts_raw dev cfg st) = adsxCodeToVolts cfg st (word_of_nat (total div n))
               \<and> fst (volts_raw dev cfg st) =
                   spec_codeToVoltage cfg st (of_int \<lfloor>real total / real n\<rfloor>))
         \<and> (total < 2 ^ 24 \<and> 0 < g_vref_volts st \<longrightarrow>
               (fst (volts_raw dev cfg st) = spec_codeToVoltage cfg st (real total / real n)
                \<longleftrightarrow> n dvd total))
         \<and> (\<not> ADSX_ENABLE_TWO_POINT_CAL cfg \<longrightarrow>
               adsxReadAveragedVolts dev cfg st = volts_raw dev cfg st))"
proof -
  define n where "n = unat (averaging_count st)"
  define codes where "codes = samples dev cfg n st"
  define total where "total = sum_list (map unat codes) mod 2 ^ 32"
  have n: "0 < n"
    unfolding n_def by (rule averaging_count_pos)
  have len: "length codes = n"
    unfolding codes_def by (rule length_samples)
  have total: "unat (sum_list codes) = total"
    unfolding total_def by (rule unat_sum_list)
  have general: "fst (volts_raw dev cfg st) =
      adsxCodeToVolts cfg st
        (float_to_u32 (to_binary32 (to_binary32 (real total) / to_binary32 (real n))))"
    unfolding total [symmetric] codes_def n_def
    by (simp only: volts_raw_value uint_to_float_def)
  have bound: "total \<le> unat (ADSX_CODE_MASK cfg) * n"
    unfolding total [symmetric] codes_def n_def by (rule accumulated_sum_bounded)
  have small: "fst (volts_raw dev cfg st) = adsxCodeToVolts cfg st (word_of_nat (total div n))"
    if "total < 2 ^ 24"
  proof -
    from that have "unat (sum_list (samples dev cfg (unat (averaging_count st)) st)) < 2 ^ 24"
      unfolding total [symmetric] codes_def n_def .
    then show ?thesis
      unfolding total [symmetric] codes_def n_def by (rule volts_raw_small)
  qed
  have "total div n \<le> unat (ADSX_CODE_MASK cfg) * n div n"
    using bound by (rule div_le_mono)
  then have quot_le: "total div n \<le> 2 ^ ADSX_BITS cfg - 1"
    using n assms by (simp add: mask_unat)
  then have "total div n < 2 ^ 32"
    using assms by (auto simp: compiles_def)
  then have quot: "unat (word_of_nat (total div n) :: u32) = total div n"
    by (simp add: unat_of_nat)
  have "unat (word_of_nat (total div n) :: u32) \<le> 2 ^ ADSX_BITS cfg - 1"
    using quot_le by (simp only: quot)
  then have "adsxCodeToVolts cfg st (word_of_nat (total div n)) =
      spec_codeToVoltage cfg st (real (unat (word_of_nat (total div n) :: u32)))"
    by (rule adsxCodeToVolts_is_spec [OF assms])
  then have spec: "adsxCodeToVolts cfg st (word_of_nat (total div n)) =
      spec_codeToVoltage cfg st (real (total div n))"
    by (simp only: quot)
  have floor: "fst (volts_raw dev cfg st) =
      spec_codeToVoltage cfg st (of_int \<lfloor>real total / real n\<rfloor>)"
    if "total < 2 ^ 24"
    using small [OF that] spec by (simp only: floor_divide_of_nat_eq of_int_of_nat_eq)
  have exact: "fst (volts_raw dev cfg st) = spec_codeToVoltage cfg st (real total / real n)
      \<longleftrightarrow> n dvd total"
    if "total < 2 ^ 24" and vref: "0 < g_vref_volts st"
  proof -
    have q0: "0 \<le> real (total div n)"
      by (simp only: of_nat_0_le_iff)
    have "real (total div n) \<le> real (2 ^ ADSX_BITS cfg - 1)"
      using quot_le by (simp only: of_nat_le_iff)
    also have "real (2 ^ ADSX_BITS cfg - 1) = 2 ^ ADSX_BITS cfg - 1"
      by (simp add: of_nat_diff)
    finally have q1: "real (total div n) \<le> 2 ^ ADSX_BITS cfg - 1" .
    have y0: "0 \<le> real total / real n"
      by simp
    have "real total \<le> real (unat (ADSX_CODE_MASK cfg) * n)"
      using bound by (simp only: of_nat_le_iff)
    then have "real total \<le> real (2 ^ ADSX_BITS cfg - 1) * real n"
      using assms by (simp add: mask_unat del: of_nat_unat)
    then have "real total / real n \<le> real (2 ^ ADSX_BITS cfg - 1)"
      using n by (simp add: divide_le_eq)
    also have "real (2 ^ ADSX_BITS cfg - 1) = 2 ^ ADSX_BITS cfg - 1"
      by (simp add: of_nat_diff)
    finally have y1: "real total / real n \<le> 2 ^ ADSX_BITS cfg - 1" .
    have "spec_codeToVoltage cfg st (real (total div n))
        = spec_codeToVoltage cfg st (real total / real n)
      \<longleftrightarrow> real (total div n) = real total / real n"
      using vref q0 q1 y0 y1 by (rule spec_codeToVoltage_injective)
    also have "\<dots> \<longleftrightarrow> n dvd total"
      using n by (rule exact_quotient_iff_dvd)
    finally show ?thesis
      using small [OF that(1)] spec by simp
  qed
  have skip: "adsxReadAveragedVolts dev cfg st = volts_raw dev cfg st"
    if "\<not> ADSX_ENABLE_TWO_POINT_CAL cfg"
    using that by (simp add: correction_skipped)
  show ?thesis
    unfolding Let_def n_def [symmetric] codes_def [symmetric] total_def [symmetric]
    using n len general small floor exact skip by blast
qed

theorem averaged_read_drops_fraction_witness:
  "compiles as_shipped \<and> \<not> ADSX_ENABLE_TWO_POINT_CAL as_shipped
   \<and> unat (averaging_count (setup_sketch midscale_adc as_shipped power_on)) = 12
   \<and> samples midscale_adc as_shipped 12 (setup_sketch midscale_adc as_shipped power_on)
        = replicate 12 32768
   \<and> (393216 :: nat) mod 2 ^ 32 < 2 ^ 24
   \<and> 0 < g_vref_volts (setup_sketch midscale_adc as_shipped power_on)
   \<and> (12 :: nat) dvd 393216 mod 2 ^ 32
   \<and> fst (adsxReadAveragedVolts midscale_adc as_shipped
        (setup_sketch midscale_adc as_shipped power_on))
      = spec_codeToVoltage as_shipped (setup_sketch midscale_adc as_shipped power_on) (393216 / 12)
   \<and> fst (adsxReadAveragedVolts midscale_adc as_shipped
        (setup_sketch midscale_adc as_shipped power_on)) = 0
   \<and> unat (averaging_count
        (setup_sketch near_top_adc as_shipped (power_on\<lparr>g_num_averages := 257\<rparr>))) = 257
   \<and> sum_list (map unat (samples near_top_adc as_shipped 257
        (setup_sketch near_top_adc as_shipped (power_on\<lparr>g_num_averages := 257\<rparr>))))
      = 16841723
   \<and> (16841723 :: nat) div 257 = 65531
   \<and> fst (volts_raw near_top_adc as_shipped
        (setup_sketch near_top_adc as_shipped (power_on\<lparr>g_num_averages := 257\<rparr>)))
      = adsxCodeToVolts as_shipped
          (setup_sketch near_top_adc as_shipped (power_on\<lparr>g_num_averages := 257\<rparr>)) 65532"
proof -
  let ?s = "setup_sketch midscale_adc as_shipped power_on"
  let ?t = "setup_sketch near_top_adc as_shipped (power_on\<lparr>g_num_averages := 257\<rparr>)"
  have n: "unat (averaging_count ?s) = 12"
    by (rule started_facts)
  have codes: "samples midscale_adc as_shipped 12 ?s = replicate 12 32768"
    by (rule midscale_samples)
  have vref: "0 < g_vref_volts ?s"
    by (simp add: vref_setup_sketch)
  have d: "(12 :: nat) dvd 393216 mod 2 ^ 32" and lt: "(393216 :: nat) mod 2 ^ 32 < 2 ^ 24"
    by simp_all
  have spec: "spec_codeToVoltage as_shipped ?s (393216 / 12) = 0"
    by (subst spec_volts_bipolar_3x) (simp_all add: as_shipped_fields started_facts)
  have "fst (volts_raw midscale_adc as_shipped ?s)
        = spec_codeToVoltage as_shipped ?s (393216 / 12)
      \<and> adsxReadAveragedVolts midscale_adc as_shipped ?s = volts_raw midscale_adc as_shipped ?s"
    using averaged_read_drops_fraction [OF as_shipped_fields(1), of ?s midscale_adc]
      as_shipped_fields(3) vref
    by (simp add: Let_def n codes sum_list_replicate)
  then have mid: "fst (adsxReadAveragedVolts midscale_adc as_shipped ?s)
        = spec_codeToVoltage as_shipped ?s (393216 / 12)
      \<and> fst (adsxReadAveragedVolts midscale_adc as_shipped ?s) = 0"
    using spec by simp
  have m: "unat (averaging_count ?t) = 257"
    by (simp add: averaging_count_def setup_sketch_num_averages)
  have "length (spi_sent ?t) = 3"
    by (simp add: setup_sketch_frames power_on_def)
  then have "samples near_top_adc as_shipped (Suc 256) ?t = 65531 # replicate 256 65532"
    by (rule near_top_samples)
  then have top_codes: "samples near_top_adc as_shipped 257 ?t = 65531 # replicate 256 65532"
    by simp
  then have top_sum: "sum_list (map unat (samples near_top_adc as_shipped 257 ?t)) = 16841723"
    by (simp add: sum_list_replicate)
  have "fst (volts_raw near_top_adc as_shipped ?t) =
      adsxCodeToVolts as_shipped ?t
        (float_to_u32 (to_binary32
          (to_binary32 (real (16841723 :: nat)) / to_binary32 (real (257 :: nat)))))"
    using averaged_read_drops_fraction [OF as_shipped_fields(1), of ?t near_top_adc]
    by (simp add: Let_def m top_sum del: of_nat_numeral)
  then have top: "fst (volts_raw near_top_adc as_shipped ?t) = adsxCodeToVolts as_shipped ?t 65532"
    by (simp only: rounding_raises_the_code)
  have q: "(16841723 :: nat) div 257 = 65531"
    by simp
  show ?thesis
    using as_shipped_fields(1,3) n codes lt vref d mid m top_sum q top by blast
qed

text \<open>
  Claim C4 as the specification states it (no truncation after the division) fails: with
  the shipped settings and twelve codes of which one is 1 and the others 0, the exact
  average is \<open>1/12\<close>, and the sketch returns the volts of code 0.
\<close>

theorem average_fraction_is_lost:
  "unat (averaging_count (setup_sketch one_count_adc as_shipped power_on)) = 12
   \<and> samples one_count_adc as_shipped 12 (setup_sketch one_count_adc as_shipped power_on)
        = [1, 0, 0, 0, 0, 0, 0, 0, 0, 0, 0, 0]
   \<and> fst (adsxReadAveragedVolts one_count_adc as_shipped
        (setup_sketch one_count_adc as_shipped power_on)) = - 12.288
   \<and> spec_codeToVoltage as_shipped (setup_sketch one_count_adc as_shipped power_on)
        (real (sum_list (map unat
            (samples one_count_adc as_shipped 12 (setup_sketch one_count_adc as_shipped power_on))))
         / real (unat (averaging_count (setup_sketch one_count_adc as_shipped power_on))))
      = - 12.288 + 1 / 12 * (24.576 / 65536)
   \<and> fst (adsxReadAveragedVolts one_count_adc as_shipped
        (setup_sketch one_count_adc as_shipped power_on))
      \<noteq> spec_codeToVoltage as_shipped (setup_sketch one_count_adc as_shipped power_on)
        (real (sum_list (map unat
            (samples one_count_adc as_shipped 12 (setup_sketch one_count_adc as_shipped power_on))))
         / real (unat (averaging_count (setup_sketch one_count_adc as_shipped power_on))))"
proof -
  let ?s = "setup_sketch one_count_adc as_shipped power_on"
  have n: "unat (averaging_count ?s) = 12"
    by (rule started_facts)
  have codes: "samples one_count_adc as_shipped 12 ?s = [1, 0, 0, 0, 0, 0, 0, 0, 0, 0, 0, 0]"
    by (rule one_count_samples) (rule started_facts)
  have small: "unat (sum_list (samples one_count_adc as_shipped (unat (averaging_count ?s)) ?s))
      < 2 ^ 24"
    by (simp add: n codes)
  have "fst (volts_raw one_count_adc as_shipped ?s) = adsxCodeToVolts as_shipped ?s 0"
    by (simp add: volts_raw_small [OF small] n codes)
  also have "\<dots> = - 12.288"
    by (rule volts_at_zero_bipolar_3x) (simp_all add: as_shipped_fields started_facts)
  finally have "fst (volts_raw one_count_adc as_shipped ?s) = - 12.288" .
  then have code: "fst (adsxReadAveragedVolts one_count_adc as_shipped ?s) = - 12.288"
    by (simp add: correction_skipped as_shipped_fields)
  have spec: "spec_codeToVoltage as_shipped ?s (1 / 12) = - 12.288 + 1 / 12 * (24.576 / 65536)"
    by (rule spec_volts_bipolar_3x) (simp_all add: as_shipped_fields started_facts)
  show ?thesis
    using code spec by (simp add: n codes)
qed

end
